theory Spec2Isabelle
  imports Complex_Main "HOL-Library.Product_Lexorder"
begin

section \<open>Double-precision values\<close>

text \<open>
  The program computes on C++ \<^verbatim>\<open>double\<close>. A value is a finite number, negative zero, an
  infinity or NaN; \<open>Fin 0\<close> is positive zero. The result of an arithmetic operation on
  finite non-zero operands is the exact real result passed through \<open>rnd\<close>, the rounding of
  the format (for binary64: to nearest, overflowing to an infinity, underflowing to a
  zero). \<open>rnd\<close> is a parameter of every operation and of every function below, and every
  theorem holds for every \<open>rnd\<close>. The special cases (zeros, infinities, NaN) are those of
  IEEE 754: a division by zero gives an infinity, or NaN for \<open>0 / 0\<close>, and a comparison
  with NaN is false.
\<close>

datatype dbl = Fin real | NegZero | PInf | NInf | NaN

type_synonym rounding = "real \<Rightarrow> dbl"

fun isnan :: "dbl \<Rightarrow> bool" where
  "isnan NaN = True"
| "isnan _ = False"

fun isinf :: "dbl \<Rightarrow> bool" where
  "isinf PInf = True"
| "isinf NInf = True"
| "isinf _ = False"

fun iszero :: "dbl \<Rightarrow> bool" where
  "iszero (Fin r) = (r = 0)"
| "iszero NegZero = True"
| "iszero _ = False"

fun signbit :: "dbl \<Rightarrow> bool" where
  "signbit (Fin r) = (r < 0)"
| "signbit NegZero = True"
| "signbit NInf = True"
| "signbit _ = False"

fun valof :: "dbl \<Rightarrow> real" where
  "valof (Fin r) = r"
| "valof _ = 0"

definition isfinite :: "dbl \<Rightarrow> bool" where
  "isfinite x = (\<not> isnan x \<and> \<not> isinf x)"

definition zero_of :: "bool \<Rightarrow> dbl" where
  "zero_of s = (if s then NegZero else Fin 0)"

definition inf_of :: "bool \<Rightarrow> dbl" where
  "inf_of s = (if s then NInf else PInf)"

fun fneg :: "dbl \<Rightarrow> dbl" where
  "fneg (Fin r) = (if r = 0 then NegZero else Fin (- r))"
| "fneg NegZero = Fin 0"
| "fneg PInf = NInf"
| "fneg NInf = PInf"
| "fneg NaN = NaN"

fun fabs :: "dbl \<Rightarrow> dbl" where
  "fabs (Fin r) = Fin \<bar>r\<bar>"
| "fabs NegZero = Fin 0"
| "fabs PInf = PInf"
| "fabs NInf = PInf"
| "fabs NaN = NaN"

definition fadd :: "rounding \<Rightarrow> dbl \<Rightarrow> dbl \<Rightarrow> dbl" where
  "fadd rnd a b =
     (if isnan a \<or> isnan b \<or> (isinf a \<and> isinf b \<and> a \<noteq> b) then NaN
      else if isinf a then a
      else if isinf b then b
      else if iszero a \<and> iszero b then zero_of (signbit a \<and> signbit b)
      else if valof a + valof b = 0 then Fin 0
      else rnd (valof a + valof b))"

definition fsub :: "rounding \<Rightarrow> dbl \<Rightarrow> dbl \<Rightarrow> dbl" where
  "fsub rnd a b = fadd rnd a (fneg b)"

definition fmul :: "rounding \<Rightarrow> dbl \<Rightarrow> dbl \<Rightarrow> dbl" where
  "fmul rnd a b =
     (if isnan a \<or> isnan b \<or> (iszero a \<and> isinf b) \<or> (isinf a \<and> iszero b) then NaN
      else if isinf a \<or> isinf b then inf_of (signbit a \<noteq> signbit b)
      else if iszero a \<or> iszero b then zero_of (signbit a \<noteq> signbit b)
      else rnd (valof a * valof b))"

definition fdiv :: "rounding \<Rightarrow> dbl \<Rightarrow> dbl \<Rightarrow> dbl" where
  "fdiv rnd a b =
     (if isnan a \<or> isnan b \<or> (iszero a \<and> iszero b) \<or> (isinf a \<and> isinf b) then NaN
      else if isinf a \<or> iszero b then inf_of (signbit a \<noteq> signbit b)
      else if isinf b \<or> iszero a then zero_of (signbit a \<noteq> signbit b)
      else rnd (valof a / valof b))"

definition fsqrt :: "rounding \<Rightarrow> dbl \<Rightarrow> dbl" where
  "fsqrt rnd a =
     (if isnan a then NaN
      else if iszero a then a
      else if signbit a then NaN
      else if isinf a then PInf
      else rnd (sqrt (valof a)))"

text \<open>
  Comparison: \<open>ext\<close> places the values other than NaN on the extended real line (the two
  zeros at the same place); a comparison with NaN is false.
\<close>

fun ext :: "dbl \<Rightarrow> int \<times> real" where
  "ext (Fin r) = (0, r)"
| "ext NegZero = (0, 0)"
| "ext PInf = (1, 0)"
| "ext NInf = (- 1, 0)"
| "ext NaN = (0, 0)"

definition fless :: "dbl \<Rightarrow> dbl \<Rightarrow> bool" where
  "fless a b = (\<not> isnan a \<and> \<not> isnan b \<and> ext a < ext b)"

definition feq :: "dbl \<Rightarrow> dbl \<Rightarrow> bool" where
  "feq a b = (\<not> isnan a \<and> \<not> isnan b \<and> ext a = ext b)"

definition fle :: "dbl \<Rightarrow> dbl \<Rightarrow> bool" where
  "fle a b = (fless a b \<or> feq a b)"

text \<open>\<^verbatim>\<open>std::max(a, b)\<close> is \<^verbatim>\<open>(a < b) ? b : a\<close>, \<^verbatim>\<open>std::min(a, b)\<close> is \<^verbatim>\<open>(b < a) ? b : a\<close>.\<close>

definition std_max :: "dbl \<Rightarrow> dbl \<Rightarrow> dbl" where
  "std_max a b = (if fless a b then b else a)"

definition std_min :: "dbl \<Rightarrow> dbl \<Rightarrow> dbl" where
  "std_min a b = (if fless b a then b else a)"

text \<open>Eigen's \<^verbatim>\<open>round()\<close> is taken to be \<^verbatim>\<open>std::round\<close>: to the nearest integer, halfway
  cases away from zero; the result keeps the sign of the argument and is representable,
  so it is not rounded again.\<close>

definition round_half_away :: "real \<Rightarrow> int" where
  "round_half_away r = (if 0 \<le> r then \<lfloor>r + 1 / 2\<rfloor> else \<lceil>r - 1 / 2\<rceil>)"

fun fround :: "dbl \<Rightarrow> dbl" where
  "fround (Fin r) =
     (if round_half_away r = 0 then zero_of (r < 0) else Fin (of_int (round_half_away r)))"
| "fround x = x"

definition DBL_EPSILON :: dbl where
  "DBL_EPSILON = Fin (1 / 2 ^ 52)"

section \<open>Vectors and matrices\<close>

text \<open>
  \<^verbatim>\<open>Eigen::Vector3d\<close> and \<^verbatim>\<open>Eigen::Vector4d\<close> are tuples; \<^verbatim>\<open>Eigen::MatrixX4d\<close> is the list of
  its rows, \<^verbatim>\<open>Eigen::Matrix3Xd\<close> the list of its columns, \<^verbatim>\<open>Eigen::VectorXd\<close> a list.
  Eigen checks sizes and indices with assertions; a failed assertion is an error value.
  Eigen's sums of three products (the dot product, the norm, the product of a matrix and
  a vector) are taken to add from left to right; no theorem depends on that order.
\<close>

type_synonym vec3 = "dbl \<times> dbl \<times> dbl"
type_synonym vec4 = "dbl \<times> dbl \<times> dbl \<times> dbl"

datatype error = EmptyMatrix | ColIndexOutOfRange

text \<open>A row \<open>(h0, h1, h2, h3)\<close> of \<open>hPoly\<close>: \<^verbatim>\<open>leftCols<3>()\<close> and \<^verbatim>\<open>rightCols<1>()\<close>;
  \<^verbatim>\<open>head<3>()\<close> of a 4-vector.\<close>

fun leftCols3 :: "vec4 \<Rightarrow> vec3" where
  "leftCols3 (h0, h1, h2, h3) = (h0, h1, h2)"

fun rightCol :: "vec4 \<Rightarrow> dbl" where
  "rightCol (h0, h1, h2, h3) = h3"

fun head3 :: "vec4 \<Rightarrow> vec3" where
  "head3 (x0, x1, x2, x3) = (x0, x1, x2)"

text \<open>\<^verbatim>\<open>A.col(k)\<close>, with Eigen's index assertion.\<close>

definition col :: "vec3 list \<Rightarrow> nat \<Rightarrow> error + vec3" where
  "col A k = (if k < length A then Inr (A ! k) else Inl ColIndexOutOfRange)"

fun vsub :: "rounding \<Rightarrow> vec3 \<Rightarrow> vec3 \<Rightarrow> vec3" where
  "vsub rnd (a0, a1, a2) (b0, b1, b2) = (fsub rnd a0 b0, fsub rnd a1 b1, fsub rnd a2 b2)"

fun vadd :: "rounding \<Rightarrow> vec3 \<Rightarrow> vec3 \<Rightarrow> vec3" where
  "vadd rnd (a0, a1, a2) (b0, b1, b2) = (fadd rnd a0 b0, fadd rnd a1 b1, fadd rnd a2 b2)"

fun vdivs :: "rounding \<Rightarrow> vec3 \<Rightarrow> dbl \<Rightarrow> vec3" where
  "vdivs rnd (a0, a1, a2) s = (fdiv rnd a0 s, fdiv rnd a1 s, fdiv rnd a2 s)"

fun vround :: "vec3 \<Rightarrow> vec3" where
  "vround (a0, a1, a2) = (fround a0, fround a1, fround a2)"

fun dot :: "rounding \<Rightarrow> vec3 \<Rightarrow> vec3 \<Rightarrow> dbl" where
  "dot rnd (a0, a1, a2) (b0, b1, b2) =
     fadd rnd (fadd rnd (fmul rnd a0 b0) (fmul rnd a1 b1)) (fmul rnd a2 b2)"

fun cross :: "rounding \<Rightarrow> vec3 \<Rightarrow> vec3 \<Rightarrow> vec3" where
  "cross rnd (a0, a1, a2) (b0, b1, b2) =
     (fsub rnd (fmul rnd a1 b2) (fmul rnd a2 b1),
      fsub rnd (fmul rnd a2 b0) (fmul rnd a0 b2),
      fsub rnd (fmul rnd a0 b1) (fmul rnd a1 b0))"

fun norm3 :: "rounding \<Rightarrow> vec3 \<Rightarrow> dbl" where
  "norm3 rnd (a0, a1, a2) =
     fsqrt rnd (fadd rnd (fadd rnd (fmul rnd a0 a0) (fmul rnd a1 a1)) (fmul rnd a2 a2))"

text \<open>The coefficients of a \<open>3 \<times> n\<close> matrix in storage (column-major) order.\<close>

fun coeffs :: "vec3 list \<Rightarrow> dbl list" where
  "coeffs [] = []"
| "coeffs ((x, y, z) # ps) = x # y # z # coeffs ps"

text \<open>\<^verbatim>\<open>maxCoeff\<close> and \<^verbatim>\<open>minCoeff\<close> reduce the coefficients with max and min; Eigen asserts
  that the matrix is not empty. The reduction is taken in storage order; the order
  matters only when a coefficient is NaN.\<close>

definition maxCoeff :: "vec3 list \<Rightarrow> error + dbl" where
  "maxCoeff m = (case coeffs m of [] \<Rightarrow> Inl EmptyMatrix | c # cs \<Rightarrow> Inr (foldl std_max c cs))"

definition minCoeff :: "vec3 list \<Rightarrow> error + dbl" where
  "minCoeff m = (case coeffs m of [] \<Rightarrow> Inl EmptyMatrix | c # cs \<Rightarrow> Inr (foldl std_min c cs))"

section \<open>filterLess and filterVs\<close>

fun filterLess :: "vec3 \<Rightarrow> vec3 \<Rightarrow> bool" where
  "filterLess (l0, l1, l2) (r0, r1, r2) =
     (fless l0 r0 \<or>
      (feq l0 r0 \<and>
       (fless l1 r1 \<or>
        (feq l1 r1 \<and>
         fless l2 r2))))"

text \<open>
  \<^verbatim>\<open>std::set<Eigen::Vector3d, filterLess>\<close>: the elements inserted so far. \<^verbatim>\<open>find\<close> locates
  an element equivalent to the key, that is, one that is neither less than the key nor
  greater; \<^verbatim>\<open>insert\<close> is only called when there is none. (This is what \<^verbatim>\<open>std::set\<close>
  guarantees when the order is a strict weak order on the keys it holds, which
  \<open>filterLess\<close> is unless some keys have a NaN and others do not.)
\<close>

type_synonym filter_set = "vec3 list"

definition equiv_key :: "vec3 \<Rightarrow> vec3 \<Rightarrow> bool" where
  "equiv_key k k' = (\<not> filterLess k k' \<and> \<not> filterLess k' k)"

definition set_find :: "filter_set \<Rightarrow> vec3 \<Rightarrow> bool" where
  "set_find filt k = list_ex (\<lambda>e. equiv_key e k) filt"

definition set_insert :: "filter_set \<Rightarrow> vec3 \<Rightarrow> filter_set" where
  "set_insert filt k = filt @ [k]"

definition filterVs_mag :: "vec3 list \<Rightarrow> error + dbl" where
  "filterVs_mag rV =
     (case maxCoeff rV of Inl e \<Rightarrow> Inl e | Inr mx \<Rightarrow>
      (case minCoeff rV of Inl e \<Rightarrow> Inl e | Inr mn \<Rightarrow>
       Inr (std_max (fabs mx) (fabs mn))))"

definition filterVs_res :: "rounding \<Rightarrow> dbl \<Rightarrow> dbl \<Rightarrow> dbl" where
  "filterVs_res rnd epsilon mag = fmul rnd mag (std_max (fdiv rnd (fabs epsilon) mag) DBL_EPSILON)"

definition quantize :: "rounding \<Rightarrow> dbl \<Rightarrow> vec3 \<Rightarrow> vec3" where
  "quantize rnd res p = vround (vdivs rnd p res)"

text \<open>One iteration of the loop, on the state \<open>(filt, fV, offset)\<close>
  (\<open>filt\<close> is the set \<^verbatim>\<open>filter\<close>).\<close>

fun filterVs_step ::
  "rounding \<Rightarrow> dbl \<Rightarrow> vec3 list \<Rightarrow> filter_set \<times> vec3 list \<times> nat \<Rightarrow> nat \<Rightarrow>
   filter_set \<times> vec3 list \<times> nat" where
  "filterVs_step rnd res rV (filt, fV, offset) i =
     (let quanti = quantize rnd res (rV ! i)
      in if \<not> set_find filt quanti
         then (set_insert filt quanti, fV[offset := rV ! i], offset + 1)
         else (filt, fV, offset))"

text \<open>\<open>filterVs rnd rV epsilon fV\<close> returns the new contents of the output matrix \<open>fV\<close>.\<close>

definition filterVs :: "rounding \<Rightarrow> vec3 list \<Rightarrow> dbl \<Rightarrow> vec3 list \<Rightarrow> error + vec3 list" where
  "filterVs rnd rV epsilon fV =
     (case filterVs_mag rV of Inl e \<Rightarrow> Inl e | Inr mag \<Rightarrow>
      let res = filterVs_res rnd epsilon mag;
          (filt, fV', offset) =
             foldl (filterVs_step rnd res rV) ([], rV, 0) [0..<length rV]
      in Inr (take offset fV'))"

text \<open>The same, as the specification words it: in input order, a point is kept when its
  key is not among the keys of the points met before it; \<open>distinct_keys\<close> says that no
  two points of a cloud have the same key. Two keys are the same when the set's order
  puts neither before the other (\<open>equiv_key\<close>).\<close>

fun first_of_each_key :: "(vec3 \<Rightarrow> vec3) \<Rightarrow> vec3 list \<Rightarrow> vec3 list \<Rightarrow> vec3 list" where
  "first_of_each_key key seen [] = []"
| "first_of_each_key key seen (p # ps) =
     (if list_ex (\<lambda>k. equiv_key k (key p)) seen
      then first_of_each_key key (seen @ [key p]) ps
      else p # first_of_each_key key (seen @ [key p]) ps)"

fun distinct_keys :: "(vec3 \<Rightarrow> vec3) \<Rightarrow> vec3 list \<Rightarrow> bool" where
  "distinct_keys key [] = True"
| "distinct_keys key (p # ps) =
     (list_all (\<lambda>q. \<not> equiv_key (key p) (key q)) ps \<and> distinct_keys key ps)"

text \<open>What the loop keeps of a list of points, given the set built so far (used in the
  proofs).\<close>

fun kept :: "(vec3 \<Rightarrow> vec3) \<Rightarrow> filter_set \<Rightarrow> vec3 list \<Rightarrow> vec3 list" where
  "kept key filt [] = []"
| "kept key filt (p # ps) =
     (if set_find filt (key p) then kept key filt ps
      else p # kept key (set_insert filt (key p)) ps)"

fun nan_free :: "vec3 \<Rightarrow> bool" where
  "nan_free (a0, a1, a2) = (\<not> isnan a0 \<and> \<not> isnan a1 \<and> \<not> isnan a2)"

fun ext3 :: "vec3 \<Rightarrow> (int \<times> real) \<times> (int \<times> real) \<times> (int \<times> real)" where
  "ext3 (a0, a1, a2) = (ext a0, ext a1, ext a2)"

section \<open>The linear-programming oracle\<close>

text \<open>
  \<^verbatim>\<open>sdlp::linprog<4>(c, A, b, x)\<close> returns the minimum of \<open>c \<cdot> x\<close> subject to \<open>A x \<le> b\<close> and
  writes a minimiser to \<open>x\<close>. Its header is not among the sources; \<open>findInterior\<close> and
  \<open>overlap\<close> take it as the parameter \<open>linprog\<close>, which returns the pair of the minimum and
  \<open>x\<close>.
\<close>

type_synonym lp_oracle = "vec4 \<Rightarrow> vec4 list \<Rightarrow> dbl list \<Rightarrow> dbl \<times> vec4"

section \<open>findInterior\<close>

text \<open>The linear program that \<open>findInterior\<close> builds: \<open>(c, A, b)\<close>.\<close>

definition findInterior_lp :: "rounding \<Rightarrow> vec4 list \<Rightarrow> vec4 \<times> vec4 list \<times> dbl list" where
  "findInterior_lp rnd hPoly =
     (let hNorm = map (\<lambda>h. norm3 rnd (leftCols3 h)) hPoly;
          A = map2 (\<lambda>h n. case leftCols3 h of (h0, h1, h2) \<Rightarrow>
                 (fdiv rnd h0 n, fdiv rnd h1 n, fdiv rnd h2 n, Fin 1)) hPoly hNorm;
          b = map2 (\<lambda>h n. fdiv rnd (fneg (rightCol h)) n) hPoly hNorm;
          c = (Fin 0, Fin 0, Fin 0, Fin (- 1))
      in (c, A, b))"

text \<open>\<open>findInterior rnd linprog hPoly interior\<close> returns the new contents of the output
  parameter \<open>interior\<close> and the result.\<close>

definition findInterior ::
  "rounding \<Rightarrow> lp_oracle \<Rightarrow> vec4 list \<Rightarrow> vec3 \<Rightarrow> vec3 \<times> bool" where
  "findInterior rnd linprog hPoly interior =
     (case findInterior_lp rnd hPoly of (c, A, b) \<Rightarrow>
      (case linprog c A b of (minmaxsd, x) \<Rightarrow>
       (head3 x, fless minmaxsd (Fin 0) \<and> \<not> isinf minmaxsd)))"

section \<open>overlap\<close>

definition overlap_lp :: "vec4 list \<Rightarrow> vec4 list \<Rightarrow> vec4 \<times> vec4 list \<times> dbl list" where
  "overlap_lp hPoly0 hPoly1 =
     (let A = map (\<lambda>h. case leftCols3 h of (h0, h1, h2) \<Rightarrow> (h0, h1, h2, Fin 1)) hPoly0 @
              map (\<lambda>h. case leftCols3 h of (h0, h1, h2) \<Rightarrow> (h0, h1, h2, Fin 1)) hPoly1;
          b = map (\<lambda>h. fneg (rightCol h)) hPoly0 @ map (\<lambda>h. fneg (rightCol h)) hPoly1;
          c = (Fin 0, Fin 0, Fin 0, Fin (- 1))
      in (c, A, b))"

definition overlap :: "lp_oracle \<Rightarrow> vec4 list \<Rightarrow> vec4 list \<Rightarrow> dbl \<Rightarrow> bool" where
  "overlap linprog hPoly0 hPoly1 eps =
     (case overlap_lp hPoly0 hPoly1 of (c, A, b) \<Rightarrow>
      (case linprog c A b of (minmaxsd, x) \<Rightarrow>
       fless minmaxsd (fneg eps) \<and> \<not> isinf minmaxsd))"

subsection \<open>The oracle as the specification describes it\<close>

text \<open>
  The code of \<^verbatim>\<open>sdlp::linprog\<close> (\<^verbatim>\<open>sdlp.hpp\<close>) is not among the sources. The specification
  says that it solves "minimize \<open>c\<^sup>T x\<close> subject to \<open>A x \<le> b\<close>", returns the optimal point
  and the optimal objective value, and signals infeasibility or unboundedness by a
  non-finite objective value. The definitions below follow these words, with exact
  arithmetic; \<open>overlap\<close> is symmetric against this oracle.
\<close>

text \<open>Modelled from the spec: the LP oracle \<^verbatim>\<open>sdlp::linprog\<close>, one row \<open>a \<cdot> x \<le> b\<^sub>i\<close> of its
  constraints at a point \<open>x\<close>. The row holds when its coefficients are finite and its
  left-hand side is at most a right-hand side that is finite or \<open>+\<infinity>\<close>.\<close>

fun lp_row_holds :: "vec4 \<times> dbl \<Rightarrow> real \<times> real \<times> real \<times> real \<Rightarrow> bool" where
  "lp_row_holds ((a0, a1, a2, a3), bi) (x0, x1, x2, x3) =
     (isfinite a0 \<and> isfinite a1 \<and> isfinite a2 \<and> isfinite a3 \<and> \<not> isnan bi \<and> bi \<noteq> NInf \<and>
      (bi = PInf \<or> valof a0 * x0 + valof a1 * x1 + valof a2 * x2 + valof a3 * x3 \<le> valof bi))"

text \<open>Modelled from the spec: the LP oracle \<^verbatim>\<open>sdlp::linprog\<close>, the points that satisfy
  \<open>A x \<le> b\<close>.\<close>

definition lp_feasible :: "vec4 list \<Rightarrow> dbl list \<Rightarrow> (real \<times> real \<times> real \<times> real) set" where
  "lp_feasible A b = {x. \<forall>r\<in>set (zip A b). lp_row_holds r x}"

text \<open>Modelled from the spec: the LP oracle \<^verbatim>\<open>sdlp::linprog\<close>, its objective \<open>c\<^sup>T x\<close>.\<close>

fun lp_objective :: "vec4 \<Rightarrow> real \<times> real \<times> real \<times> real \<Rightarrow> real" where
  "lp_objective (c0, c1, c2, c3) (x0, x1, x2, x3) =
     valof c0 * x0 + valof c1 * x1 + valof c2 * x2 + valof c3 * x3"

text \<open>Modelled from the spec: the LP oracle \<^verbatim>\<open>sdlp::linprog\<close>, an objective that is a
  linear function.\<close>

fun lp_finite_objective :: "vec4 \<Rightarrow> bool" where
  "lp_finite_objective (c0, c1, c2, c3) = (isfinite c0 \<and> isfinite c1 \<and> isfinite c2 \<and> isfinite c3)"

text \<open>Modelled from the spec: the LP oracle \<^verbatim>\<open>sdlp::linprog\<close>, the optimal objective
  value it returns: \<open>+\<infinity>\<close> when no point satisfies every row (infeasible), \<open>-\<infinity>\<close> when the
  objective is unbounded below, the minimum otherwise. The specification does not say
  which infinity stands for which case, nor what is returned for an objective with a
  non-finite coefficient; the model returns NaN for the latter.\<close>

definition lp_minimum :: "vec4 \<Rightarrow> vec4 list \<Rightarrow> dbl list \<Rightarrow> dbl" where
  "lp_minimum c A b =
     (if \<not> lp_finite_objective c then NaN
      else if lp_feasible A b = {} then PInf
      else if \<not> bdd_below (lp_objective c ` lp_feasible A b) then NInf
      else Fin (Inf (lp_objective c ` lp_feasible A b)))"

text \<open>Modelled from the spec: the LP oracle \<^verbatim>\<open>sdlp::linprog\<close>, what it returns. The
  specification does not say which optimal point is returned when there are several:
  the point is the parameter \<open>pick\<close>.\<close>

definition linprog_spec :: "(vec4 \<Rightarrow> vec4 list \<Rightarrow> dbl list \<Rightarrow> vec4) \<Rightarrow> lp_oracle" where
  "linprog_spec pick c A b = (lp_minimum c A b, pick c A b)"

text \<open>
  The specification's interior point: a point satisfies the row \<open>(h0, h1, h2, h3)\<close> with
  strict slack when \<open>h0 x + h1 y + h2 z + h3 < 0\<close>. With the offset \<open>-\<infinity>\<close> every point does,
  with \<open>+\<infinity>\<close> or NaN none does, and no point satisfies a row whose normal is not finite
  (as for the rows of the oracle above). Two regions are disjoint, or touch at their
  boundary only, when no point satisfies every row of both systems with strict slack.
\<close>

fun strictly_inside :: "vec4 \<Rightarrow> real \<times> real \<times> real \<Rightarrow> bool" where
  "strictly_inside (h0, h1, h2, h3) (x, y, z) =
     (isfinite h0 \<and> isfinite h1 \<and> isfinite h2 \<and> \<not> isnan h3 \<and> h3 \<noteq> PInf \<and>
      (h3 = NInf \<or> valof h0 * x + valof h1 * y + valof h2 * z + valof h3 < 0))"

section \<open>enumerateVs\<close>

text \<open>
  The convex-hull library (\<^verbatim>\<open>quickhull.hpp\<close>) is not among the sources either. What
  \<open>enumerateVs\<close> uses of it is a parameter: \<open>getConvexHull qh A CCW useOriginalIndices eps\<close>
  is the index buffer of the hull of the columns of \<open>A\<close>, \<open>defaultEps qh\<close> the constant
  \<^verbatim>\<open>quickhull::defaultEps<double>()\<close>.
\<close>

record quickhull =
  getConvexHull :: "vec3 list \<Rightarrow> bool \<Rightarrow> bool \<Rightarrow> dbl \<Rightarrow> nat list"
  defaultEps :: dbl

text \<open>The matrix \<open>A\<close> of \<open>enumerateVs\<close>: column \<open>i\<close> is the row \<open>i\<close> of \<open>hPoly\<close>, its offset
  dropped, divided by \<open>b\<^sub>i\<close>.\<close>

definition enumerateVs_A :: "rounding \<Rightarrow> vec4 list \<Rightarrow> vec3 \<Rightarrow> vec3 list" where
  "enumerateVs_A rnd hPoly inner =
     (let b = map (\<lambda>h. fsub rnd (fneg (rightCol h)) (dot rnd (leftCols3 h) inner)) hPoly
      in map2 (\<lambda>h bi. vdivs rnd (leftCols3 h) bi) hPoly b)"

text \<open>The body of the loop over the facets: the column \<open>i\<close> of \<open>rV\<close>.\<close>

definition enumerateVs_facet :: "rounding \<Rightarrow> vec3 list \<Rightarrow> nat list \<Rightarrow> nat \<Rightarrow> error + vec3" where
  "enumerateVs_facet rnd A idBuffer i =
     (case col A (idBuffer ! (3 * i + 1)) of Inl e \<Rightarrow> Inl e | Inr point \<Rightarrow>
      (case col A (idBuffer ! (3 * i)) of Inl e \<Rightarrow> Inl e | Inr p0 \<Rightarrow>
       (case col A (idBuffer ! (3 * i + 2)) of Inl e \<Rightarrow> Inl e | Inr p2 \<Rightarrow>
        (let edge0 = vsub rnd point p0;
             edge1 = vsub rnd p2 point;
             normal = cross rnd edge0 edge1
         in Inr (vdivs rnd normal (dot rnd normal point))))))"

text \<open>The loop writes the columns of \<open>rV\<close> in the order of their indices; \<open>rV\<close> is the list
  of the columns written so far.\<close>

fun enumerateVs_loop ::
  "rounding \<Rightarrow> vec3 list \<Rightarrow> nat list \<Rightarrow> nat list \<Rightarrow> vec3 list \<Rightarrow> error + vec3 list" where
  "enumerateVs_loop rnd A idBuffer [] rV = Inr rV"
| "enumerateVs_loop rnd A idBuffer (i # is) rV =
     (case enumerateVs_facet rnd A idBuffer i of Inl e \<Rightarrow> Inl e
      | Inr v \<Rightarrow> enumerateVs_loop rnd A idBuffer is (rV @ [v]))"

text \<open>\<open>enumerateVs rnd qh hPoly inner vPoly epsilon\<close> returns the new contents of the output
  matrix \<open>vPoly\<close>.\<close>

definition enumerateVs ::
  "rounding \<Rightarrow> quickhull \<Rightarrow> vec4 list \<Rightarrow> vec3 \<Rightarrow> vec3 list \<Rightarrow> dbl \<Rightarrow> error + vec3 list" where
  "enumerateVs rnd qh hPoly inner vPoly epsilon =
     (let A = enumerateVs_A rnd hPoly inner;
          qhullEps = std_min epsilon (defaultEps qh);
          idBuffer = getConvexHull qh A False True qhullEps;
          hNum = length idBuffer div 3
      in case enumerateVs_loop rnd A idBuffer [0..<hNum] [] of Inl e \<Rightarrow> Inl e
         | Inr rV \<Rightarrow>
             (case filterVs rnd rV epsilon vPoly of Inl e \<Rightarrow> Inl e
              | Inr fV \<Rightarrow> Inr (map (\<lambda>v. vadd rnd v inner) fV)))"

text \<open>The overload without an interior point. \<open>inner0\<close> is the content of the local
  variable \<open>inner\<close> before the call of \<open>findInterior\<close>; the function returns the contents of
  \<open>vPoly\<close> and the result.\<close>

definition enumerateVs_auto ::
  "rounding \<Rightarrow> lp_oracle \<Rightarrow> quickhull \<Rightarrow> vec3 \<Rightarrow> vec4 list \<Rightarrow> vec3 list \<Rightarrow> dbl \<Rightarrow>
   error + vec3 list \<times> bool" where
  "enumerateVs_auto rnd linprog qh inner0 hPoly vPoly epsilon =
     (case findInterior rnd linprog hPoly inner0 of (inner, found) \<Rightarrow>
      if found
      then (case enumerateVs rnd qh hPoly inner vPoly epsilon of Inl e \<Rightarrow> Inl e
            | Inr vPoly' \<Rightarrow> Inr (vPoly', True))
      else Inr (vPoly, False))"

text \<open>The specification's wording of the enumeration: the dual point of a row, the
  facets as triples of the index buffer, the primal vertex of a facet.\<close>

definition dual_point :: "rounding \<Rightarrow> vec3 \<Rightarrow> vec4 \<Rightarrow> vec3" where
  "dual_point rnd inner h =
     vdivs rnd (leftCols3 h) (fsub rnd (fneg (rightCol h)) (dot rnd (leftCols3 h) inner))"

fun facets :: "nat list \<Rightarrow> (nat \<times> nat \<times> nat) list" where
  "facets (i0 # i1 # i2 # ids) = (i0, i1, i2) # facets ids"
| "facets _ = []"

fun primal_vertex :: "rounding \<Rightarrow> vec3 \<times> vec3 \<times> vec3 \<Rightarrow> vec3" where
  "primal_vertex rnd (p0, p1, p2) =
     (let normal = cross rnd (vsub rnd p1 p0) (vsub rnd p2 p1)
      in vdivs rnd normal (dot rnd normal p1))"

section \<open>Example data\<close>

text \<open>
  The unit cube \<open>[0, 1]\<^sup>3\<close> and the box \<open>[lo, hi]\<^sup>3\<close> as half-space systems (a row
  \<open>(h0, h1, h2, h3)\<close> stands for \<open>h0 x + h1 y + h2 z + h3 \<le> 0\<close>), a tetrahedron, and what
  the hull library returns for the dual points of the cube (an octahedron) and of the
  tetrahedron. \<open>centre\<close> returns an optimal point of the linear program of the unit cube
  (\<open>overlap\<close> does not read the point).
\<close>

definition unit_cube :: "vec4 list" where
  "unit_cube =
     [(Fin 1, Fin 0, Fin 0, Fin (- 1)), (Fin (- 1), Fin 0, Fin 0, Fin 0),
      (Fin 0, Fin 1, Fin 0, Fin (- 1)), (Fin 0, Fin (- 1), Fin 0, Fin 0),
      (Fin 0, Fin 0, Fin 1, Fin (- 1)), (Fin 0, Fin 0, Fin (- 1), Fin 0)]"

definition box :: "real \<Rightarrow> real \<Rightarrow> vec4 list" where
  "box lo hi =
     [(Fin 1, Fin 0, Fin 0, Fin (- hi)), (Fin (- 1), Fin 0, Fin 0, Fin lo),
      (Fin 0, Fin 1, Fin 0, Fin (- hi)), (Fin 0, Fin (- 1), Fin 0, Fin lo),
      (Fin 0, Fin 0, Fin 1, Fin (- hi)), (Fin 0, Fin 0, Fin (- 1), Fin lo)]"

definition octahedron :: quickhull where
  "octahedron =
     \<lparr>getConvexHull = (\<lambda>A CCW useOriginalIndices eps.
        [0, 2, 4, 0, 4, 3, 0, 3, 5, 0, 5, 2, 1, 4, 2, 1, 3, 4, 1, 5, 3, 1, 2, 5]),
      defaultEps = Fin (1 / 10000000)\<rparr>"

definition tetrahedron :: "vec4 list" where
  "tetrahedron =
     [(Fin (- 1), Fin 0, Fin 0, Fin 0), (Fin 0, Fin (- 1), Fin 0, Fin 0),
      (Fin 0, Fin 0, Fin (- 1), Fin 0), (Fin 1, Fin 1, Fin 1, Fin (- 1))]"

definition tetrahedron_hull :: quickhull where
  "tetrahedron_hull =
     \<lparr>getConvexHull = (\<lambda>A CCW useOriginalIndices eps. [0, 1, 2, 0, 3, 1, 1, 3, 2, 0, 2, 3]),
      defaultEps = Fin (1 / 10000000)\<rparr>"

definition centre :: "vec4 \<Rightarrow> vec4 list \<Rightarrow> dbl list \<Rightarrow> vec4" where
  "centre c A b = (Fin (1 / 2), Fin (1 / 2), Fin (1 / 2), Fin (1 / 2))"

section \<open>Facts about doubles\<close>

lemmas arith_simps = fadd_def fsub_def fmul_def fdiv_def fsqrt_def zero_of_def inf_of_def
  fless_def feq_def std_max_def std_min_def round_half_away_def DBL_EPSILON_def

lemma fless_irrefl: "\<not> fless a a"
  by (simp add: fless_def)

lemma finite_negative: "(fless v (Fin 0) \<and> \<not> isinf v) = (isfinite v \<and> fless v (Fin 0))"
  by (cases v) (simp_all add: isfinite_def fless_def)

lemma finite_below: "(fless v e \<and> \<not> isinf v) = (isfinite v \<and> fless v e)"
  by (cases v) (simp_all add: isfinite_def fless_def)

lemma fless_neg_nonneg:
  "fle (Fin 0) eps \<Longrightarrow> fle (Fin 0) v \<Longrightarrow> \<not> fless v (fneg eps)"
  by (cases eps; cases v) (auto simp: fle_def fless_def feq_def)

lemma fle_zero_Fin: "0 \<le> r \<Longrightarrow> fle (Fin 0) (Fin r)"
  by (auto simp: fle_def fless_def feq_def)

lemma ext_std_max:
  "\<not> isnan a \<Longrightarrow> \<not> isnan b \<Longrightarrow> ext (std_max a b) = max (ext a) (ext b)"
  by (simp add: std_max_def fless_def max_def del: ext.simps) auto

lemma ext_std_min:
  "\<not> isnan a \<Longrightarrow> \<not> isnan b \<Longrightarrow> ext (std_min a b) = min (ext a) (ext b)"
  by (simp add: std_min_def fless_def min_def del: ext.simps) auto

lemma fabs_zero: "iszero x \<Longrightarrow> fabs x = Fin 0"
  by (cases x) simp_all

lemma fdiv_by_zero: "fdiv rnd (fabs e) (Fin 0) = PInf \<or> fdiv rnd (fabs e) (Fin 0) = NaN"
  by (cases e) (simp_all add: fdiv_def inf_of_def)

lemma fdiv_zero_zero: "iszero x \<Longrightarrow> fdiv rnd x (Fin 0) = NaN"
  by (simp add: fdiv_def)

lemma fdiv_any_zero: "fdiv rnd x (Fin 0) \<in> {PInf, NInf, NaN}"
  by (simp add: fdiv_def inf_of_def)

lemma valof_fneg_Fin: "valof (fneg (Fin r)) = - r"
  by simp

lemma fneg_Fin_ok: "\<not> isnan (fneg (Fin r))" "fneg (Fin r) \<noteq> NInf" "fneg (Fin r) \<noteq> PInf"
  by simp_all

lemma zip_map_same: "zip xs (map g xs) = map (\<lambda>x. (x, g x)) xs"
  by (induction xs) simp_all

lemma map2_same: "map2 f xs (map g xs) = map (\<lambda>x. f x (g x)) xs"
  by (simp add: zip_map_same)

lemma upt_4: "[0..<4] = [0, 1, 2, 3]"
  by (simp add: upt_rec)

lemma upt_8: "[0..<8] = [0, 1, 2, 3, 4, 5, 6, 7]"
  by (simp add: upt_rec)

section \<open>filterVs: the loop\<close>

lemmas filterVs_simps = filterVs_def filterVs_mag_def filterVs_res_def maxCoeff_def
  minCoeff_def quantize_def set_find_def set_insert_def equiv_key_def

lemma filterLess_irrefl: "\<not> filterLess k k"
  by (cases k) (simp add: fless_irrefl)

lemma equiv_key_refl: "equiv_key k k"
  by (simp add: equiv_key_def filterLess_irrefl)

lemma equiv_key_sym: "equiv_key a b \<Longrightarrow> equiv_key b a"
  by (auto simp: equiv_key_def)

text \<open>On keys without NaN the order of the set is the lexicographic order of the three
  coordinates, and two keys are equivalent exactly when they are equal as numbers.\<close>

lemma equiv_key_nan_free:
  "nan_free a \<Longrightarrow> nan_free b \<Longrightarrow> equiv_key a b = (ext3 a = ext3 b)"
  by (cases a; cases b) (auto simp: equiv_key_def fless_def feq_def simp del: ext.simps)

lemma equiv_key_trans_nan_free:
  assumes "\<forall>k\<in>K. nan_free k"
  shows "\<forall>a\<in>K. \<forall>b\<in>K. \<forall>c\<in>K. equiv_key a b \<and> equiv_key b c \<longrightarrow> equiv_key a c"
  using assms by (simp add: equiv_key_nan_free)

text \<open>The loop invariant: the first \<open>offset\<close> columns of \<open>fV\<close> are the points kept so
  far.\<close>

lemma filterVs_loop:
  assumes "length fV = length rV" and "offset \<le> i" and "i \<le> length rV"
  shows "case foldl (filterVs_step rnd res rV) (filt, fV, offset) [i..<length rV] of
           (filt', fV', offset') \<Rightarrow>
             take offset' fV' = take offset fV @ kept (quantize rnd res) filt (drop i rV)"
  using assms
proof (induction "length rV - i" arbitrary: i filt fV offset)
  case 0
  then show ?case by simp
next
  case (Suc d)
  then have i: "i < length rV" by simp
  have dr: "drop i rV = rV ! i # drop (Suc i) rV"
    using i by (simp add: Cons_nth_drop_Suc)
  have up: "[i..<length rV] = i # [Suc i..<length rV]"
    using i by (simp add: upt_rec)
  show ?case
  proof (cases "set_find filt (quantize rnd res (rV ! i))")
    case True
    have "d = length rV - Suc i" using Suc.hyps(2) by simp
    from Suc.hyps(1)[OF this, of fV offset filt] Suc.prems i True
    show ?thesis by (simp add: up dr)
  next
    case False
    have d: "d = length rV - Suc i" using Suc.hyps(2) by simp
    have off: "offset < length fV" using Suc.prems i by simp
    have tk: "take (Suc offset) (fV[offset := rV ! i]) = take offset fV @ [rV ! i]"
      using off by (simp add: take_Suc_conv_app_nth)
    from Suc.hyps(1)[OF d, of "fV[offset := rV ! i]" "Suc offset"
        "set_insert filt (quantize rnd res (rV ! i))"] Suc.prems i False
    show ?thesis by (simp add: up dr tk)
  qed
qed

lemma filterVs_kept:
  "filterVs_mag rV = Inr mag \<Longrightarrow>
   filterVs rnd rV epsilon fV = Inr (kept (quantize rnd (filterVs_res rnd epsilon mag)) [] rV)"
  using filterVs_loop[of rV rV 0 0 rnd "filterVs_res rnd epsilon mag" "[]"]
  by (simp add: filterVs_def split: prod.splits)

lemma filterVs_mag_empty: "filterVs_mag [] = Inl EmptyMatrix"
  by (simp add: filterVs_mag_def maxCoeff_def)

lemma filterVs_mag_nonempty: "rV \<noteq> [] \<Longrightarrow> \<exists>mag. filterVs_mag rV = Inr mag"
  by (cases rV) (auto simp: filterVs_mag_def maxCoeff_def minCoeff_def)

lemma kept_distinct:
  "distinct_keys key ps \<Longrightarrow> \<forall>p\<in>set ps. \<not> set_find filt (key p) \<Longrightarrow> kept key filt ps = ps"
proof (induction ps arbitrary: filt)
  case Nil
  then show ?case by simp
next
  case (Cons p ps)
  have "\<forall>q\<in>set ps. \<not> set_find (set_insert filt (key p)) (key q)"
    using Cons.prems by (auto simp: set_find_def set_insert_def list_ex_iff list_all_iff)
  with Cons show ?case by simp
qed

lemma kept_all_equiv:
  "\<forall>q\<in>set ps. set_find filt (key q) \<Longrightarrow> kept key filt ps = []"
  by (induction ps) auto

lemma kept_single_class:
  assumes "\<forall>q\<in>set ps. equiv_key (key p) (key q)"
  shows "kept key [] (p # ps) = [p]"
proof -
  have "\<forall>q\<in>set ps. set_find (set_insert [] (key p)) (key q)"
    using assms by (simp add: set_find_def set_insert_def)
  then show ?thesis by (simp add: kept_all_equiv set_find_def)
qed

lemma kept_first_of_each_key:
  assumes "\<forall>a\<in>K. \<forall>b\<in>K. \<forall>c\<in>K. equiv_key a b \<and> equiv_key b c \<longrightarrow> equiv_key a c"
    and "key ` set ps \<subseteq> K" and "set seen \<subseteq> K" and "set filt \<subseteq> set seen"
    and "\<forall>k\<in>set seen. \<exists>k'\<in>set filt. equiv_key k' k"
  shows "kept key filt ps = first_of_each_key key seen ps"
  using assms(2-)
proof (induction ps arbitrary: filt seen)
  case Nil
  then show ?case by simp
next
  case (Cons p ps)
  have kp: "key p \<in> K" using Cons.prems by auto
  have iff: "set_find filt (key p) = list_ex (\<lambda>k. equiv_key k (key p)) seen"
  proof
    assume "set_find filt (key p)"
    then show "list_ex (\<lambda>k. equiv_key k (key p)) seen"
      using Cons.prems(3) by (auto simp: set_find_def list_ex_iff)
  next
    assume "list_ex (\<lambda>k. equiv_key k (key p)) seen"
    then obtain k where k: "k \<in> set seen" "equiv_key k (key p)" by (auto simp: list_ex_iff)
    then obtain k' where k': "k' \<in> set filt" "equiv_key k' k" using Cons.prems(4) by blast
    have "k \<in> K" "k' \<in> K" using k k' Cons.prems by auto
    then have "equiv_key k' (key p)" using assms(1) kp k k' by blast
    then show "set_find filt (key p)" using k' by (auto simp: set_find_def list_ex_iff)
  qed
  show ?case
  proof (cases "set_find filt (key p)")
    case True
    then obtain k' where k': "k' \<in> set filt" "equiv_key k' (key p)"
      by (auto simp: set_find_def list_ex_iff)
    have "kept key filt ps = first_of_each_key key (seen @ [key p]) ps"
    proof (rule Cons.IH)
      show "key ` set ps \<subseteq> K" using Cons.prems by auto
      show "set (seen @ [key p]) \<subseteq> K" using Cons.prems kp by auto
      show "set filt \<subseteq> set (seen @ [key p])" using Cons.prems by auto
      show "\<forall>k\<in>set (seen @ [key p]). \<exists>k'\<in>set filt. equiv_key k' k"
        using Cons.prems(4) k' by auto
    qed
    with True iff show ?thesis by simp
  next
    case False
    have "kept key (set_insert filt (key p)) ps = first_of_each_key key (seen @ [key p]) ps"
    proof (rule Cons.IH)
      show "key ` set ps \<subseteq> K" using Cons.prems by auto
      show "set (seen @ [key p]) \<subseteq> K" using Cons.prems kp by auto
      show "set (set_insert filt (key p)) \<subseteq> set (seen @ [key p])"
        using Cons.prems by (auto simp: set_insert_def)
      show "\<forall>k\<in>set (seen @ [key p]). \<exists>k'\<in>set (set_insert filt (key p)). equiv_key k' k"
        using Cons.prems(4) by (auto simp: set_insert_def equiv_key_refl)
    qed
    with False iff show ?thesis by simp
  qed
qed

section \<open>filterVs: the magnitude\<close>

lemma foldl_std_max:
  assumes "\<not> isnan c" and "\<forall>x\<in>set cs. \<not> isnan x"
  shows "foldl std_max c cs \<in> set (c # cs) \<and>
         (\<forall>x\<in>set (c # cs). ext x \<le> ext (foldl std_max c cs))"
  using assms
proof (induction cs arbitrary: c)
  case Nil
  then show ?case by simp
next
  case (Cons x xs)
  have n: "\<not> isnan (std_max c x)" using Cons.prems by (simp add: std_max_def)
  have m: "std_max c x \<in> {c, x}" by (simp add: std_max_def)
  have e: "ext c \<le> ext (std_max c x)" "ext x \<le> ext (std_max c x)"
    using Cons.prems by (simp_all add: ext_std_max del: ext.simps)
  from Cons.IH[OF n] Cons.prems
  have ih: "foldl std_max (std_max c x) xs \<in> set (std_max c x # xs)"
    "\<forall>y\<in>set (std_max c x # xs). ext y \<le> ext (foldl std_max (std_max c x) xs)"
    by simp_all
  have "ext (std_max c x) \<le> ext (foldl std_max (std_max c x) xs)" using ih(2) by simp
  then have "ext c \<le> ext (foldl std_max (std_max c x) xs)"
    "ext x \<le> ext (foldl std_max (std_max c x) xs)"
    using e by (meson order_trans)+
  then show ?case using ih m by (auto simp del: ext.simps)
qed

lemma foldl_std_min:
  assumes "\<not> isnan c" and "\<forall>x\<in>set cs. \<not> isnan x"
  shows "foldl std_min c cs \<in> set (c # cs) \<and>
         (\<forall>x\<in>set (c # cs). ext (foldl std_min c cs) \<le> ext x)"
  using assms
proof (induction cs arbitrary: c)
  case Nil
  then show ?case by simp
next
  case (Cons x xs)
  have n: "\<not> isnan (std_min c x)" using Cons.prems by (simp add: std_min_def)
  have m: "std_min c x \<in> {c, x}" by (simp add: std_min_def)
  have e: "ext (std_min c x) \<le> ext c" "ext (std_min c x) \<le> ext x"
    using Cons.prems by (simp_all add: ext_std_min del: ext.simps)
  from Cons.IH[OF n] Cons.prems
  have ih: "foldl std_min (std_min c x) xs \<in> set (std_min c x # xs)"
    "\<forall>y\<in>set (std_min c x # xs). ext (foldl std_min (std_min c x) xs) \<le> ext y"
    by simp_all
  have "ext (foldl std_min (std_min c x) xs) \<le> ext (std_min c x)" using ih(2) by simp
  then have "ext (foldl std_min (std_min c x) xs) \<le> ext c"
    "ext (foldl std_min (std_min c x) xs) \<le> ext x"
    using e by (meson order_trans)+
  then show ?case using ih m by (auto simp del: ext.simps)
qed

lemma fabs_between:
  assumes "\<not> isnan a" "\<not> isnan b" "\<not> isnan c" "ext a \<le> ext c" "ext c \<le> ext b"
  shows "\<not> fless (std_max (fabs b) (fabs a)) (fabs c)"
  using assms by (cases a; cases b; cases c) (auto simp: std_max_def fless_def)

lemma filterVs_mag_largest:
  assumes "filterVs_mag rV = Inr mag" and "\<forall>c\<in>set (coeffs rV). \<not> isnan c"
  shows "(\<exists>c\<in>set (coeffs rV). mag = fabs c) \<and> (\<forall>c\<in>set (coeffs rV). \<not> fless mag (fabs c))"
proof (cases "coeffs rV")
  case Nil
  with assms(1) show ?thesis by (simp add: filterVs_mag_def maxCoeff_def)
next
  case (Cons c cs)
  define mx where "mx = foldl std_max c cs"
  define mn where "mn = foldl std_min c cs"
  have nn: "\<not> isnan c" "\<forall>x\<in>set cs. \<not> isnan x" using assms(2) Cons by simp_all
  have mag: "mag = std_max (fabs mx) (fabs mn)"
    using assms(1) Cons by (simp add: filterVs_mag_def maxCoeff_def minCoeff_def mx_def mn_def)
  have mx: "mx \<in> set (coeffs rV)" "\<forall>x\<in>set (coeffs rV). ext x \<le> ext mx"
    using foldl_std_max[OF nn] Cons by (simp_all add: mx_def del: ext.simps)
  have mn: "mn \<in> set (coeffs rV)" "\<forall>x\<in>set (coeffs rV). ext mn \<le> ext x"
    using foldl_std_min[OF nn] Cons by (simp_all add: mn_def del: ext.simps)
  have "mag = fabs mx \<or> mag = fabs mn" by (simp add: mag std_max_def)
  then have 1: "\<exists>c\<in>set (coeffs rV). mag = fabs c" using mx(1) mn(1) by blast
  have 2: "\<forall>x\<in>set (coeffs rV). \<not> fless mag (fabs x)"
  proof
    fix x assume x: "x \<in> set (coeffs rV)"
    have "\<not> isnan mn" "\<not> isnan mx" "\<not> isnan x" using assms(2) mn(1) mx(1) x by blast+
    moreover have "ext mn \<le> ext x" "ext x \<le> ext mx" using mn(2) mx(2) x by blast+
    ultimately show "\<not> fless mag (fabs x)" unfolding mag by (rule fabs_between)
  qed
  from 1 2 show ?thesis by blast
qed

lemma foldl_std_max_zero:
  "iszero c \<Longrightarrow> \<forall>x\<in>set cs. iszero x \<Longrightarrow> iszero (foldl std_max c cs)"
  by (induction cs arbitrary: c) (simp_all add: std_max_def)

lemma foldl_std_min_zero:
  "iszero c \<Longrightarrow> \<forall>x\<in>set cs. iszero x \<Longrightarrow> iszero (foldl std_min c cs)"
  by (induction cs arbitrary: c) (simp_all add: std_min_def)

lemma filterVs_mag_zero:
  assumes "rV \<noteq> []" and "\<forall>c\<in>set (coeffs rV). iszero c"
  shows "filterVs_mag rV = Inr (Fin 0)"
proof (cases "coeffs rV")
  case Nil
  with assms(1) show ?thesis by (cases rV) auto
next
  case (Cons c cs)
  have "iszero (foldl std_max c cs)" "iszero (foldl std_min c cs)"
    using assms(2) Cons by (simp_all add: foldl_std_max_zero foldl_std_min_zero)
  then show ?thesis
    using Cons by (simp add: filterVs_mag_def maxCoeff_def minCoeff_def fabs_zero std_max_def fless_def)
qed

lemma filterVs_res_zero: "filterVs_res rnd epsilon (Fin 0) = NaN"
  using fdiv_by_zero[of rnd epsilon]
  by (auto simp: filterVs_res_def std_max_def fless_def fmul_def DBL_EPSILON_def)

lemma quantize_NaN: "quantize rnd NaN p = (NaN, NaN, NaN)"
  by (cases p) (simp add: quantize_def fdiv_def)

section \<open>filterVs: the claims\<close>

text \<open>
  C4. For a cloud \<open>rV\<close> that is not empty, \<open>filterVs\<close> computes a magnitude \<open>mag\<close>; when
  no coordinate is NaN, \<open>mag\<close> is the largest absolute value of a coordinate of the cloud
  (it is the absolute value of one of them, and none has a larger one). The resolution
  is \<open>res = mag * max (|epsilon| / mag) DBL_EPSILON\<close> and the key of a point is the point
  divided by \<open>res\<close> and rounded, coordinate by coordinate. When the order of the set is
  consistent on the keys of the cloud (being equivalent is transitive on them, which
  \<^verbatim>\<open>std::set\<close> requires, and which holds when no key has a NaN), the output is, in input
  order, the first point of each key: a point is dropped exactly when its key is that
  of a point met before. Nothing is assumed of \<open>epsilon\<close>.
\<close>

theorem filterVs_first_of_each_key:
  assumes "rV \<noteq> []"
  shows "\<exists>mag. filterVs_mag rV = Inr mag \<and>
           ((\<forall>c\<in>set (coeffs rV). \<not> isnan c) \<longrightarrow>
              (\<exists>c\<in>set (coeffs rV). mag = fabs c) \<and>
              (\<forall>c\<in>set (coeffs rV). \<not> fless mag (fabs c))) \<and>
           (let res = fmul rnd mag (std_max (fdiv rnd (fabs epsilon) mag) DBL_EPSILON);
                key = (\<lambda>p. vround (vdivs rnd p res))
            in (\<forall>a\<in>key ` set rV. \<forall>b\<in>key ` set rV. \<forall>c\<in>key ` set rV.
                   equiv_key a b \<and> equiv_key b c \<longrightarrow> equiv_key a c) \<longrightarrow>
               filterVs rnd rV epsilon fV = Inr (first_of_each_key key [] rV))"
proof -
  obtain mag where mag: "filterVs_mag rV = Inr mag"
    using assms filterVs_mag_nonempty by blast
  define res where "res = fmul rnd mag (std_max (fdiv rnd (fabs epsilon) mag) DBL_EPSILON)"
  define key where "key = (\<lambda>p. vround (vdivs rnd p res))"
  have q: "quantize rnd (filterVs_res rnd epsilon mag) = key"
    by (simp add: key_def res_def quantize_def filterVs_res_def fun_eq_iff)
  have out: "filterVs rnd rV epsilon fV = Inr (first_of_each_key key [] rV)"
    if tr: "\<forall>a\<in>key ` set rV. \<forall>b\<in>key ` set rV. \<forall>c\<in>key ` set rV.
              equiv_key a b \<and> equiv_key b c \<longrightarrow> equiv_key a c"
  proof -
    have "kept key [] rV = first_of_each_key key [] rV"
      by (rule kept_first_of_each_key[OF tr]) simp_all
    then show ?thesis using filterVs_kept[OF mag, of rnd epsilon fV] by (simp add: q)
  qed
  show ?thesis
    using mag filterVs_mag_largest[OF mag] out
    unfolding Let_def key_def res_def by blast
qed

text \<open>C4, at a cloud of four points of which the second and the third have the same
  key.\<close>

theorem filterVs_first_of_each_key_witness:
  "filterVs Fin [(Fin 0, Fin 0, Fin 0), (Fin 1, Fin 0, Fin 0), (Fin 1, Fin 0, Fin 0),
       (Fin 0, Fin (- 1), Fin 0)] (Fin (1 / 2)) [] =
   Inr [(Fin 0, Fin 0, Fin 0), (Fin 1, Fin 0, Fin 0), (Fin 0, Fin (- 1), Fin 0)]"
proof -
  define rV where "rV = [(Fin 0, Fin 0, Fin 0), (Fin 1, Fin 0, Fin 0), (Fin 1, Fin 0, Fin 0),
       (Fin 0, Fin (- 1), Fin 0)]"
  have ne: "rV \<noteq> []" by (simp add: rV_def)
  have m: "filterVs_mag rV = Inr (Fin 1)"
    by (simp add: rV_def filterVs_mag_def maxCoeff_def minCoeff_def std_max_def std_min_def
        fless_def)
  have r: "fmul Fin (Fin 1) (std_max (fdiv Fin (fabs (Fin (1 / 2))) (Fin 1)) DBL_EPSILON) =
      Fin (1 / 2)"
    by (simp add: fmul_def fdiv_def std_max_def fless_def DBL_EPSILON_def)
  have k: "(\<lambda>p. vround (vdivs Fin p (Fin (1 / 2)))) ` set rV =
      {(Fin 0, Fin 0, Fin 0), (Fin 2, Fin 0, Fin 0), (Fin 0, Fin (- 2), Fin 0)}"
    by (auto simp: rV_def fdiv_def round_half_away_def zero_of_def)
  have tr: "\<forall>a\<in>(\<lambda>p. vround (vdivs Fin p (Fin (1 / 2)))) ` set rV.
      \<forall>b\<in>(\<lambda>p. vround (vdivs Fin p (Fin (1 / 2)))) ` set rV.
      \<forall>c\<in>(\<lambda>p. vround (vdivs Fin p (Fin (1 / 2)))) ` set rV.
         equiv_key a b \<and> equiv_key b c \<longrightarrow> equiv_key a c"
    by (rule equiv_key_trans_nan_free) (simp add: k)
  have f: "first_of_each_key (\<lambda>p. vround (vdivs Fin p (Fin (1 / 2)))) [] rV =
      [(Fin 0, Fin 0, Fin 0), (Fin 1, Fin 0, Fin 0), (Fin 0, Fin (- 1), Fin 0)]"
    by (simp add: rV_def fdiv_def round_half_away_def zero_of_def equiv_key_def fless_def
        feq_def)
  from filterVs_first_of_each_key[OF ne, of Fin "Fin (1 / 2)" "[]"]
  obtain mag where mag: "filterVs_mag rV = Inr mag"
    and out: "let res = fmul Fin mag (std_max (fdiv Fin (fabs (Fin (1 / 2))) mag) DBL_EPSILON);
                  key = (\<lambda>p. vround (vdivs Fin p res))
              in (\<forall>a\<in>key ` set rV. \<forall>b\<in>key ` set rV. \<forall>c\<in>key ` set rV.
                     equiv_key a b \<and> equiv_key b c \<longrightarrow> equiv_key a c) \<longrightarrow>
                 filterVs Fin rV (Fin (1 / 2)) [] = Inr (first_of_each_key key [] rV)"
    by blast
  have "mag = Fin 1" using mag m by simp
  then have "filterVs Fin rV (Fin (1 / 2)) [] =
      Inr (first_of_each_key (\<lambda>p. vround (vdivs Fin p (Fin (1 / 2)))) [] rV)"
    using out tr unfolding Let_def r by (simp only: r)
  then show ?thesis unfolding f unfolding rV_def .
qed

text \<open>
  C8, as the code has it. For a cloud that is not empty and whose coordinates are all
  zero (of either sign), \<open>mag\<close> is zero and \<open>filterVs\<close> does divide by it: whatever
  \<open>epsilon\<close> is, the resolution \<open>mag * max (|epsilon| / mag) DBL_EPSILON\<close> is NaN, so every
  key is \<open>(NaN, NaN, NaN)\<close>. All these keys are equivalent for \<open>filterLess\<close>, and the
  output is exactly one point, the first of the cloud.
\<close>

theorem filterVs_zero_cloud:
  assumes "rV \<noteq> []" and "\<forall>c\<in>set (coeffs rV). iszero c"
  shows "filterVs_mag rV = Inr (Fin 0) \<and> 
         fmul rnd (Fin 0) (std_max (fdiv rnd (fabs epsilon) (Fin 0)) DBL_EPSILON) = NaN \<and>
         filterVs rnd rV epsilon fV = Inr [hd rV]"
proof -
  have mag: "filterVs_mag rV = Inr (Fin 0)" using assms by (rule filterVs_mag_zero)
  have res: "filterVs_res rnd epsilon (Fin 0) = NaN" by (rule filterVs_res_zero)
  obtain p ps where rV: "rV = p # ps" using assms(1) by (cases rV) auto
  have "kept (quantize rnd NaN) [] (p # ps) = [p]"
    by (rule kept_single_class) (simp add: quantize_NaN equiv_key_refl)
  then have "filterVs rnd rV epsilon fV = Inr [hd rV]"
    using filterVs_kept[OF mag, of rnd epsilon fV] by (simp add: res rV)
  then show ?thesis using mag res by (simp add: filterVs_res_def)
qed

text \<open>C8, at a cloud of two zero points, the first with a negative zero.\<close>

theorem filterVs_zero_cloud_witness:
  "filterVs Fin [(Fin 0, NegZero, Fin 0), (Fin 0, Fin 0, Fin 0)] (Fin (1 / 1000000)) [] =
     Inr [(Fin 0, NegZero, Fin 0)]"
  using filterVs_zero_cloud[of "[(Fin 0, NegZero, Fin 0), (Fin 0, Fin 0, Fin 0)]" Fin
      "Fin (1 / 1000000)" "[]"]
  by simp

text \<open>
  C8 as stated fails in its first half: on the cloud of the single point \<open>(0, 0, 0)\<close>
  with \<open>epsilon = 10\<^sup>-\<^sup>6\<close>, \<open>mag\<close> is \<open>0\<close>, the quotient \<open>|epsilon| / mag\<close> is computed and is
  \<open>+\<infinity>\<close>, and the resolution is NaN. The division by zero is not avoided.
\<close>

theorem filterVs_divides_by_zero:
  "filterVs_mag [(Fin 0, Fin 0, Fin 0)] = Inr (Fin 0) \<and>
   fdiv Fin (fabs (Fin (1 / 1000000))) (Fin 0) = PInf \<and>
   filterVs_res Fin (Fin (1 / 1000000)) (Fin 0) = NaN"
  by (simp add: filterVs_mag_def maxCoeff_def minCoeff_def std_max_def std_min_def fless_def
      fdiv_def inf_of_def filterVs_res_def fmul_def DBL_EPSILON_def)

text \<open>
  C9. For a cloud \<open>rV\<close> that is not empty (\<open>filterVs\<close> is specified for such clouds; on
  the empty one Eigen's assertion in \<^verbatim>\<open>maxCoeff\<close> fails): if no two points of \<open>rV\<close> have
  the same key at the given \<open>epsilon\<close>, the output is \<open>rV\<close> itself, same points in the
  same order; and if \<open>rV\<close> consists of \<open>k + 1\<close> copies of one point, the output is that
  one point.
\<close>

theorem filterVs_idempotent:
  assumes "rV \<noteq> []"
  shows "\<exists>mag. filterVs_mag rV = Inr mag \<and>
           (distinct_keys (quantize rnd (filterVs_res rnd epsilon mag)) rV \<longrightarrow>
              filterVs rnd rV epsilon fV = Inr rV) \<and>
           ((\<exists>p k. rV = replicate (Suc k) p) \<longrightarrow> filterVs rnd rV epsilon fV = Inr [hd rV])"
proof -
  obtain mag where mag: "filterVs_mag rV = Inr mag"
    using assms filterVs_mag_nonempty by blast
  define key where "key = quantize rnd (filterVs_res rnd epsilon mag)"
  have out: "filterVs rnd rV epsilon fV = Inr (kept key [] rV)"
    unfolding key_def by (rule filterVs_kept[OF mag])
  have 1: "filterVs rnd rV epsilon fV = Inr rV" if "distinct_keys key rV"
    using that out by (simp add: kept_distinct set_find_def)
  have 2: "filterVs rnd rV epsilon fV = Inr [hd rV]" if "\<exists>p k. rV = replicate (Suc k) p"
  proof -
    from that obtain p k where r: "rV = p # replicate k p" by auto
    have "kept key [] (p # replicate k p) = [p]"
      by (rule kept_single_class) (simp add: equiv_key_refl)
    then show ?thesis using out r by simp
  qed
  show ?thesis using mag 1 2 unfolding key_def by blast
qed

text \<open>C9, at a cloud of two points with different keys and at three copies of a
  point.\<close>

theorem filterVs_idempotent_witness:
  "filterVs Fin [(Fin 0, Fin 0, Fin 0), (Fin 1, Fin 0, Fin 0)] (Fin (1 / 2)) [] =
     Inr [(Fin 0, Fin 0, Fin 0), (Fin 1, Fin 0, Fin 0)] \<and>
   filterVs Fin (replicate 3 (Fin 1, Fin 2, Fin 3)) (Fin (1 / 2)) [] = Inr [(Fin 1, Fin 2, Fin 3)]"
proof -
  define rV where "rV = [(Fin 0, Fin 0, Fin 0), (Fin 1, Fin 0, Fin 0)]"
  have m: "filterVs_mag rV = Inr (Fin 1)"
    by (simp add: rV_def filterVs_mag_def maxCoeff_def minCoeff_def std_max_def std_min_def
        fless_def)
  have d: "distinct_keys (quantize Fin (filterVs_res Fin (Fin (1 / 2)) (Fin 1))) rV"
    by (simp add: rV_def filterVs_res_def quantize_def fmul_def fdiv_def std_max_def fless_def
        feq_def DBL_EPSILON_def round_half_away_def zero_of_def equiv_key_def)
  have a: "filterVs Fin rV (Fin (1 / 2)) [] = Inr rV"
    using filterVs_idempotent[of rV Fin "Fin (1 / 2)" "[]"] m d by (auto simp: rV_def)
  have "\<exists>p k. replicate 3 (Fin 1, Fin 2, Fin 3) = replicate (Suc k) p"
    by (metis eval_nat_numeral(3))
  then have b: "filterVs Fin (replicate 3 (Fin 1, Fin 2, Fin 3)) (Fin (1 / 2)) [] =
      Inr [hd (replicate 3 (Fin 1, Fin 2, Fin 3))]"
    using filterVs_idempotent[of "replicate 3 (Fin 1, Fin 2, Fin 3)" Fin "Fin (1 / 2)" "[]"]
    by (auto simp: numeral_3_eq_3)
  from a b show ?thesis by (simp add: rV_def numeral_3_eq_3)
qed

section \<open>findInterior\<close>

lemma findInterior_lp_rows:
  "findInterior_lp rnd hPoly =
     ((Fin 0, Fin 0, Fin 0, Fin (- 1)),
      map (\<lambda>h. case leftCols3 h of (h0, h1, h2) \<Rightarrow>
             (fdiv rnd h0 (norm3 rnd (leftCols3 h)), fdiv rnd h1 (norm3 rnd (leftCols3 h)),
              fdiv rnd h2 (norm3 rnd (leftCols3 h)), Fin 1)) hPoly,
      map (\<lambda>h. fdiv rnd (fneg (rightCol h)) (norm3 rnd (leftCols3 h))) hPoly)"
  by (simp add: findInterior_lp_def map2_same)

lemma norm3_zero:
  assumes "iszero h0" "iszero h1" "iszero h2"
  shows "norm3 rnd (h0, h1, h2) = Fin 0"
proof -
  have m: "fmul rnd x x = Fin 0" if "iszero x" for x
    using that by (cases x) (simp_all add: fmul_def zero_of_def)
  show ?thesis using assms by (simp add: m fadd_def fsqrt_def zero_of_def)
qed

text \<open>
  C2. The linear program that \<open>findInterior\<close> hands to the oracle has the objective
  \<open>(0, 0, 0, -1)\<close> and, for the row \<open>(h0, h1, h2, h3)\<close> of \<open>hPoly\<close> with \<open>n\<close> the norm of
  \<open>(h0, h1, h2)\<close>, the constraint row \<open>(h0 / n, h1 / n, h2 / n, 1)\<close> with right-hand side
  \<open>- h3 / n\<close>. With \<open>v\<close> the objective value that the oracle returns for it,
  \<open>findInterior\<close> returns true if and only if \<open>v\<close> is finite and \<open>v < 0\<close>; so it returns
  false when \<open>v < 0\<close> does not hold and when \<open>v\<close> is not finite. This holds for every
  \<open>hPoly\<close>, every oracle and every rounding.
\<close>

theorem findInterior_true_iff:
  "case findInterior_lp rnd hPoly of (c, A, b) \<Rightarrow>
     c = (Fin 0, Fin 0, Fin 0, Fin (- 1)) \<and>
     length A = length hPoly \<and> length b = length hPoly \<and>
     (\<forall>i<length hPoly. case hPoly ! i of (h0, h1, h2, h3) \<Rightarrow>
        (let n = norm3 rnd (h0, h1, h2)
         in A ! i = (fdiv rnd h0 n, fdiv rnd h1 n, fdiv rnd h2 n, Fin 1) \<and>
            b ! i = fdiv rnd (fneg h3) n)) \<and>
     (let v = fst (linprog c A b);
          found = snd (findInterior rnd linprog hPoly interior)
      in (found \<longleftrightarrow> isfinite v \<and> fless v (Fin 0)) \<and>
         (\<not> fless v (Fin 0) \<longrightarrow> \<not> found) \<and>
         (\<not> isfinite v \<longrightarrow> \<not> found))"
proof -
  obtain c A b where lp: "findInterior_lp rnd hPoly = (c, A, b)"
    by (cases "findInterior_lp rnd hPoly") auto
  have c: "c = (Fin 0, Fin 0, Fin 0, Fin (- 1))"
    and A: "A = map (\<lambda>h. case leftCols3 h of (h0, h1, h2) \<Rightarrow>
             (fdiv rnd h0 (norm3 rnd (leftCols3 h)), fdiv rnd h1 (norm3 rnd (leftCols3 h)),
              fdiv rnd h2 (norm3 rnd (leftCols3 h)), Fin 1)) hPoly"
    and b: "b = map (\<lambda>h. fdiv rnd (fneg (rightCol h)) (norm3 rnd (leftCols3 h))) hPoly"
    using lp unfolding findInterior_lp_rows by simp_all
  have rows: "\<forall>i<length hPoly. case hPoly ! i of (h0, h1, h2, h3) \<Rightarrow>
        (let n = norm3 rnd (h0, h1, h2)
         in A ! i = (fdiv rnd h0 n, fdiv rnd h1 n, fdiv rnd h2 n, Fin 1) \<and>
            b ! i = fdiv rnd (fneg h3) n)"
    by (auto simp: A b Let_def split: prod.splits)
  have found: "snd (findInterior rnd linprog hPoly interior) =
      (isfinite (fst (linprog c A b)) \<and> fless (fst (linprog c A b)) (Fin 0))"
    by (simp add: findInterior_def lp finite_negative split: prod.splits)
  show ?thesis
    unfolding lp using c rows found by (simp add: A b Let_def)
qed

text \<open>
  C10. Whatever \<open>interior\<close> held before the call and whatever the result is, after the
  call \<open>interior\<close> holds the first three components of the point that the oracle
  returned.
\<close>

theorem findInterior_overwrites:
  "fst (findInterior rnd linprog hPoly interior) =
     (case findInterior_lp rnd hPoly of (c, A, b) \<Rightarrow> head3 (snd (linprog c A b)))"
  by (simp add: findInterior_def split: prod.splits)

text \<open>
  C7, as the code has it. \<open>findInterior\<close> checks nothing about its rows. For a row
  whose normal \<open>(h0, h1, h2)\<close> is zero, the norm is \<open>0\<close> and the normalisation divides by
  it: the constraint row handed to the oracle is \<open>(NaN, NaN, NaN, 1)\<close> and its right-hand
  side is \<open>- h3 / 0\<close>, an infinity or NaN. The result is true if and only if the
  objective value that the oracle returns for this program is finite and negative.
\<close>

theorem findInterior_zero_normal:
  assumes "i < length hPoly" and "hPoly ! i = (h0, h1, h2, h3)"
    and "iszero h0" and "iszero h1" and "iszero h2"
  shows "case findInterior_lp rnd hPoly of (c, A, b) \<Rightarrow>
           A ! i = (NaN, NaN, NaN, Fin 1) \<and> b ! i = fdiv rnd (fneg h3) (Fin 0) \<and>
           b ! i \<in> {PInf, NInf, NaN} \<and>
           snd (findInterior rnd linprog hPoly interior) =
             (isfinite (fst (linprog c A b)) \<and> fless (fst (linprog c A b)) (Fin 0))"
proof -
  have n: "norm3 rnd (leftCols3 (hPoly ! i)) = Fin 0"
    using assms by (simp add: norm3_zero del: norm3.simps)
  show ?thesis
    unfolding findInterior_lp_rows findInterior_def
    using assms n fdiv_any_zero[of rnd "fneg h3"]
    by (simp add: fdiv_zero_zero finite_negative split: prod.splits)
qed

text \<open>C7, at a system whose second row has a zero normal.\<close>

theorem findInterior_zero_normal_witness:
  "findInterior_lp Fin [(Fin 1, Fin 0, Fin 0, Fin (- 1)), (Fin 0, NegZero, Fin 0, Fin 2)] =
     ((Fin 0, Fin 0, Fin 0, Fin (- 1)),
      [(Fin 1, Fin 0, Fin 0, Fin 1), (NaN, NaN, NaN, Fin 1)], [Fin 1, NInf])"
  using findInterior_zero_normal[of 1 "[(Fin 1, Fin 0, Fin 0, Fin (- 1)), (Fin 0, NegZero, Fin 0, Fin 2)]"
     "Fin 0" NegZero "Fin 0" "Fin 2" Fin "\<lambda>c A b. (NaN, c)" "(NaN, NaN, NaN)"]
  by (simp add: findInterior_lp_rows fdiv_def fmul_def fadd_def fsqrt_def zero_of_def inf_of_def)

text \<open>
  C7 as stated fails: on the system of the single row \<open>(0, 0, 0, 1)\<close> (the empty region
  \<open>1 \<le> 0\<close>) the normalisation computes \<open>0 / 0\<close> and \<open>-1 / 0\<close> and hands the row
  \<open>(NaN, NaN, NaN, 1)\<close> with right-hand side \<open>-\<infinity>\<close> to the oracle; and nothing in
  \<open>findInterior\<close> makes it return false there: with an oracle that answers \<open>-1\<close> for this
  program it returns true.
\<close>

theorem findInterior_divides_by_zero:
  "findInterior_lp Fin [(Fin 0, Fin 0, Fin 0, Fin 1)] =
     ((Fin 0, Fin 0, Fin 0, Fin (- 1)), [(NaN, NaN, NaN, Fin 1)], [NInf]) \<and>
   findInterior Fin (\<lambda>c A b. (Fin (- 1), (Fin 0, Fin 0, Fin 0, Fin 1)))
      [(Fin 0, Fin 0, Fin 0, Fin 1)] (NaN, NaN, NaN) = ((Fin 0, Fin 0, Fin 0), True)"
  by (simp add: findInterior_def findInterior_lp_rows fdiv_def fmul_def fadd_def fsqrt_def
      zero_of_def inf_of_def fless_def)

section \<open>overlap\<close>

lemma rightCol_row: "rightCol (case leftCols3 h of (h0, h1, h2) \<Rightarrow> (h0, h1, h2, c)) = c"
  by (cases h) auto

lemma leftCols3_row: "leftCols3 (case leftCols3 h of (h0, h1, h2) \<Rightarrow> (h0, h1, h2, c)) = leftCols3 h"
  by (cases h) auto

lemma overlap_lp_rows:
  "overlap_lp hPoly0 hPoly1 =
     ((Fin 0, Fin 0, Fin 0, Fin (- 1)),
      map (\<lambda>h. case leftCols3 h of (h0, h1, h2) \<Rightarrow> (h0, h1, h2, Fin 1)) (hPoly0 @ hPoly1),
      map (\<lambda>h. fneg (rightCol h)) (hPoly0 @ hPoly1))"
  by (simp add: overlap_lp_def)

text \<open>With the oracle of the specification, a positive shift is feasible only at a point
  that satisfies every row of both systems with strict slack.\<close>

lemma row_holds_strictly_inside:
  assumes "lp_row_holds (case leftCols3 h of (h0, h1, h2) \<Rightarrow> (h0, h1, h2, Fin 1), fneg (rightCol h))
             (x, y, z, w)"
    and "0 < w"
  shows "strictly_inside h (x, y, z)"
proof -
  obtain h0 h1 h2 h3 where h: "h = (h0, h1, h2, h3)" by (cases h) auto
  show ?thesis using assms unfolding h by (cases h3) (auto split: if_splits)
qed

lemma overlap_spec_no_interior:
  assumes eps: "fle (Fin 0) eps"
    and none: "\<not> (\<exists>p. \<forall>h\<in>set (hPoly0 @ hPoly1). strictly_inside h p)"
  shows "\<not> overlap (linprog_spec pick) hPoly0 hPoly1 eps"
proof -
  let ?c = "(Fin 0, Fin 0, Fin 0, Fin (- 1))"
  let ?A = "map (\<lambda>h. case leftCols3 h of (h0, h1, h2) \<Rightarrow> (h0, h1, h2, Fin 1)) (hPoly0 @ hPoly1)"
  let ?b = "map (\<lambda>h. fneg (rightCol h)) (hPoly0 @ hPoly1)"
  let ?F = "lp_feasible ?A ?b"
  let ?V = "lp_objective ?c ` ?F"
  have w: "w \<le> 0" if "(x, y, z, w) \<in> ?F" for x y z w
  proof (rule ccontr)
    assume "\<not> w \<le> 0"
    then have pos: "0 < w" by simp
    have "\<forall>h\<in>set (hPoly0 @ hPoly1). strictly_inside h (x, y, z)"
    proof
      fix h assume "h \<in> set (hPoly0 @ hPoly1)"
      then have "(case leftCols3 h of (h0, h1, h2) \<Rightarrow> (h0, h1, h2, Fin 1), fneg (rightCol h))
          \<in> set (zip ?A ?b)"
        unfolding zip_map_map zip_same_conv_map by force
      then have "lp_row_holds (case leftCols3 h of (h0, h1, h2) \<Rightarrow> (h0, h1, h2, Fin 1),
          fneg (rightCol h)) (x, y, z, w)"
        using that unfolding lp_feasible_def by blast
      then show "strictly_inside h (x, y, z)" using pos by (rule row_holds_strictly_inside)
    qed
    with none show False by blast
  qed
  have lb: "\<forall>v\<in>?V. 0 \<le> v"
  proof
    fix v assume "v \<in> ?V"
    then obtain x y z w' where "(x, y, z, w') \<in> ?F" and v: "v = lp_objective ?c (x, y, z, w')"
      by auto
    then show "0 \<le> v" using w[of x y z w'] by simp
  qed
  have fin: "lp_finite_objective ?c" by (simp add: isfinite_def)
  have ov: "overlap (linprog_spec pick) hPoly0 hPoly1 eps =
      (fless (lp_minimum ?c ?A ?b) (fneg eps) \<and> \<not> isinf (lp_minimum ?c ?A ?b))"
    by (simp add: overlap_def overlap_lp_rows linprog_spec_def del: map_append)
  show ?thesis
  proof (cases "?F = {}")
    case True
    then have "lp_minimum ?c ?A ?b = PInf" using fin by (simp add: lp_minimum_def del: map_append)
    then show ?thesis unfolding ov by simp
  next
    case False
    have bdd: "bdd_below ?V" using lb by (meson bdd_belowI)
    have ne: "?V \<noteq> {}" using False by simp
    have "0 \<le> Inf ?V" using ne lb by (intro cInf_greatest) auto
    then have "fle (Fin 0) (Fin (Inf ?V))" by (rule fle_zero_Fin)
    moreover have "lp_minimum ?c ?A ?b = Fin (Inf ?V)"
      using fin False bdd by (simp add: lp_minimum_def del: map_append)
    ultimately have "fle (Fin 0) (lp_minimum ?c ?A ?b)" by (simp only:)
    from fless_neg_nonneg[OF eps this] show ?thesis unfolding ov by simp
  qed
qed

text \<open>
  C3, as the code has it. The linear program of \<open>overlap\<close> has the objective
  \<open>(0, 0, 0, -1)\<close>; the first three columns of its matrix are the normals of the rows of
  \<open>hPoly0\<close> followed by those of \<open>hPoly1\<close>, unchanged; its fourth column is \<open>1\<close>; its
  right-hand side is the negated offsets in the same order. With \<open>v\<close> the objective value
  that the oracle returns, \<open>overlap\<close> returns true if and only if \<open>v\<close> is finite and
  \<open>v < - eps\<close>, for every \<open>eps\<close> and every oracle; so it returns false when \<open>v\<close> is not
  finite (an infeasible or unbounded program). For \<open>eps \<ge> 0\<close>, and only then, it returns
  false whenever \<open>v \<ge> 0\<close>; and with the oracle of the specification it returns false for
  regions that are disjoint or touch at their boundary only, that is, when no point
  satisfies every row of both systems with strict slack.
\<close>

theorem overlap_true_iff:
  "(case overlap_lp hPoly0 hPoly1 of (c, A, b) \<Rightarrow>
     c = (Fin 0, Fin 0, Fin 0, Fin (- 1)) \<and>
     map leftCols3 A = map leftCols3 hPoly0 @ map leftCols3 hPoly1 \<and>
     map rightCol A = replicate (length hPoly0 + length hPoly1) (Fin 1) \<and>
     b = map (\<lambda>h. fneg (rightCol h)) hPoly0 @ map (\<lambda>h. fneg (rightCol h)) hPoly1 \<and>
     (let v = fst (linprog c A b)
      in (overlap linprog hPoly0 hPoly1 eps \<longleftrightarrow> isfinite v \<and> fless v (fneg eps)) \<and>
         (\<not> isfinite v \<longrightarrow> \<not> overlap linprog hPoly0 hPoly1 eps) \<and>
         (fle (Fin 0) eps \<and> fle (Fin 0) v \<longrightarrow> \<not> overlap linprog hPoly0 hPoly1 eps))) \<and>
   (fle (Fin 0) eps \<and> \<not> (\<exists>p. \<forall>h\<in>set (hPoly0 @ hPoly1). strictly_inside h p) \<longrightarrow>
      \<not> overlap (linprog_spec pick) hPoly0 hPoly1 eps)"
proof -
  obtain c A b where lp: "overlap_lp hPoly0 hPoly1 = (c, A, b)"
    by (cases "overlap_lp hPoly0 hPoly1") auto
  have c: "c = (Fin 0, Fin 0, Fin 0, Fin (- 1))"
    and A: "A = map (\<lambda>h. case leftCols3 h of (h0, h1, h2) \<Rightarrow> (h0, h1, h2, Fin 1))
                 (hPoly0 @ hPoly1)"
    and b: "b = map (\<lambda>h. fneg (rightCol h)) (hPoly0 @ hPoly1)"
    using lp unfolding overlap_lp_rows by simp_all
  have l: "map leftCols3 A = map leftCols3 hPoly0 @ map leftCols3 hPoly1"
    unfolding A by (simp add: comp_def leftCols3_row)
  have r: "map rightCol A = replicate (length hPoly0 + length hPoly1) (Fin 1)"
    unfolding A by (simp add: comp_def rightCol_row map_replicate_const replicate_add)
  have ov: "overlap linprog hPoly0 hPoly1 eps =
      (isfinite (fst (linprog c A b)) \<and> fless (fst (linprog c A b)) (fneg eps))"
    by (simp add: overlap_def lp finite_below split: prod.splits)
  have code: "case overlap_lp hPoly0 hPoly1 of (c, A, b) \<Rightarrow>
     c = (Fin 0, Fin 0, Fin 0, Fin (- 1)) \<and>
     map leftCols3 A = map leftCols3 hPoly0 @ map leftCols3 hPoly1 \<and>
     map rightCol A = replicate (length hPoly0 + length hPoly1) (Fin 1) \<and>
     b = map (\<lambda>h. fneg (rightCol h)) hPoly0 @ map (\<lambda>h. fneg (rightCol h)) hPoly1 \<and>
     (let v = fst (linprog c A b)
      in (overlap linprog hPoly0 hPoly1 eps \<longleftrightarrow> isfinite v \<and> fless v (fneg eps)) \<and>
         (\<not> isfinite v \<longrightarrow> \<not> overlap linprog hPoly0 hPoly1 eps) \<and>
         (fle (Fin 0) eps \<and> fle (Fin 0) v \<longrightarrow> \<not> overlap linprog hPoly0 hPoly1 eps))"
    unfolding lp using c l r b ov fless_neg_nonneg[of eps "fst (linprog c A b)"]
    by (auto simp: Let_def)
  have spec: "fle (Fin 0) eps \<and> \<not> (\<exists>p. \<forall>h\<in>set (hPoly0 @ hPoly1). strictly_inside h p) \<longrightarrow>
      \<not> overlap (linprog_spec pick) hPoly0 hPoly1 eps"
    using overlap_spec_no_interior[of eps hPoly0 hPoly1 pick] by blast
  from code spec show ?thesis ..
qed

lemma lp_minimum_cong:
  assumes "set (zip A b) = set (zip A' b')"
  shows "lp_minimum c A b = lp_minimum c A' b'"
proof -
  have "lp_feasible A b = lp_feasible A' b'"
    unfolding lp_feasible_def assms ..
  then show ?thesis unfolding lp_minimum_def by (simp only:)
qed

lemma lp_minimum_eqI:
  assumes "lp_finite_objective c" and "x \<in> lp_feasible A b"
    and "\<forall>y\<in>lp_feasible A b. lp_objective c x \<le> lp_objective c y"
  shows "lp_minimum c A b = Fin (lp_objective c x)"
proof -
  let ?V = "lp_objective c ` lp_feasible A b"
  have ne: "lp_feasible A b \<noteq> {}" using assms(2) by blast
  have lb: "\<forall>v\<in>?V. lp_objective c x \<le> v" using assms(3) by blast
  then have bdd: "bdd_below ?V" by (meson bdd_belowI)
  have "lp_objective c x \<in> ?V" using assms(2) by blast
  then have "Inf ?V = lp_objective c x" using lb by (intro cInf_eq_minimum) auto
  then show ?thesis using assms(1) ne bdd by (simp add: lp_minimum_def)
qed

text \<open>
  C6. With the oracle of the specification (\<open>linprog_spec\<close>, whatever optimal point it
  picks), \<open>overlap\<close> gives the same result for \<open>(hPoly0, hPoly1)\<close> and for
  \<open>(hPoly1, hPoly0)\<close>, although the two calls stack the rows in opposite orders: the
  program of the second call has the rows of the first one, those that come from
  \<open>hPoly1\<close> moved before those that come from \<open>hPoly0\<close>. The two programs have the same
  feasible points and so the same optimal value.
\<close>

theorem overlap_symmetric:
  "overlap (linprog_spec pick) hPoly0 hPoly1 eps = overlap (linprog_spec pick) hPoly1 hPoly0 eps \<and>
   (case overlap_lp hPoly0 hPoly1 of (c, A, b) \<Rightarrow>
      overlap_lp hPoly1 hPoly0 =
        (c, drop (length hPoly0) A @ take (length hPoly0) A,
            drop (length hPoly0) b @ take (length hPoly0) b))"
proof -
  have "lp_minimum c (map f (hPoly0 @ hPoly1)) (map g (hPoly0 @ hPoly1)) =
        lp_minimum c (map f (hPoly1 @ hPoly0)) (map g (hPoly1 @ hPoly0))"
    for c and f :: "vec4 \<Rightarrow> vec4" and g :: "vec4 \<Rightarrow> dbl"
  proof (rule lp_minimum_cong)
    show "set (zip (map f (hPoly0 @ hPoly1)) (map g (hPoly0 @ hPoly1))) =
          set (zip (map f (hPoly1 @ hPoly0)) (map g (hPoly1 @ hPoly0)))"
      unfolding zip_map_map zip_same_conv_map by auto
  qed
  then have sym: "overlap (linprog_spec pick) hPoly0 hPoly1 eps =
      overlap (linprog_spec pick) hPoly1 hPoly0 eps"
    unfolding overlap_def overlap_lp_rows linprog_spec_def by (simp only: prod.case)
  have rows: "case overlap_lp hPoly0 hPoly1 of (c, A, b) \<Rightarrow>
      overlap_lp hPoly1 hPoly0 =
        (c, drop (length hPoly0) A @ take (length hPoly0) A,
            drop (length hPoly0) b @ take (length hPoly0) b)"
    by (simp add: overlap_lp_rows)
  from sym rows show ?thesis ..
qed

section \<open>enumerateVs\<close>

lemma length_facets: "length (facets ids) = length ids div 3"
  by (induction ids rule: facets.induct) simp_all

lemma facets_nth:
  "i < length ids div 3 \<Longrightarrow> facets ids ! i = (ids ! (3 * i), ids ! (3 * i + 1), ids ! (3 * i + 2))"
proof (induction ids arbitrary: i rule: facets.induct)
  case (1 i0 i1 i2 ids)
  show ?case
  proof (cases i)
    case 0
    then show ?thesis by simp
  next
    case (Suc j)
    then have "j < length ids div 3" using "1.prems" by simp
    from "1.IH"[OF this] Suc show ?thesis by simp
  qed
qed simp_all

lemma enumerateVs_loop_map:
  "\<forall>i\<in>set is. enumerateVs_facet rnd A idBuffer i = Inr (f i) \<Longrightarrow>
   enumerateVs_loop rnd A idBuffer is rV = Inr (rV @ map f is)"
  by (induction "is" arbitrary: rV) simp_all

lemma enumerateVs_facet_primal:
  assumes "i < length idBuffer div 3" and "\<forall>k\<in>set idBuffer. k < length A"
  shows "enumerateVs_facet rnd A idBuffer i =
           Inr (case facets idBuffer ! i of (i0, i1, i2) \<Rightarrow> primal_vertex rnd (A ! i0, A ! i1, A ! i2))"
proof -
  have "3 * i + 2 < length idBuffer" using assms(1) by simp
  then have "idBuffer ! (3 * i) < length A" "idBuffer ! (3 * i + 1) < length A"
    "idBuffer ! (3 * i + 2) < length A"
    using assms(2) by simp_all
  then show ?thesis
    by (simp add: enumerateVs_facet_def col_def facets_nth[OF assms(1)] Let_def)
qed

lemma enumerateVs_A_dual: "enumerateVs_A rnd hPoly inner = map (dual_point rnd inner) hPoly"
  by (simp add: enumerateVs_A_def map2_same dual_point_def)

text \<open>
  C1. Let \<open>D\<close> be the dual points of the rows of \<open>hPoly\<close>, the row \<open>(n, d)\<close> giving
  \<open>n / (- d - n \<cdot> inner)\<close>, and let the index buffer that the hull library returns for
  \<open>D\<close> name columns of \<open>D\<close> only. Then \<open>enumerateVs\<close> returns the points that \<open>filterVs\<close>
  keeps, with the same \<open>epsilon\<close>, of the list of the primal vertices
  \<open>(p1 - p0) \<times> (p2 - p1) / (((p1 - p0) \<times> (p2 - p1)) \<cdot> p1)\<close> of the facets \<open>(p0, p1, p2)\<close>
  in the order of the buffer, each with \<open>inner\<close> added; when the buffer holds no facet,
  both sides are the failure of \<open>filterVs\<close> on an empty cloud. Nothing is assumed of
  \<open>inner\<close>.
\<close>

theorem enumerateVs_dual_facets:
  assumes "\<forall>k\<in>set (getConvexHull qh (map (dual_point rnd inner) hPoly) False True
                     (std_min epsilon (defaultEps qh))). k < length hPoly"
  shows "enumerateVs rnd qh hPoly inner vPoly epsilon =
     (let D = map (dual_point rnd inner) hPoly;
          idBuffer = getConvexHull qh D False True (std_min epsilon (defaultEps qh));
          rV = map (\<lambda>(i0, i1, i2). primal_vertex rnd (D ! i0, D ! i1, D ! i2)) (facets idBuffer)
      in case filterVs rnd rV epsilon vPoly of Inl e \<Rightarrow> Inl e
         | Inr fV \<Rightarrow> Inr (map (\<lambda>v. vadd rnd v inner) fV))"
proof -
  define D where "D = map (dual_point rnd inner) hPoly"
  define idBuffer where "idBuffer = getConvexHull qh D False True (std_min epsilon (defaultEps qh))"
  define g where "g = (\<lambda>(i0, i1, i2). primal_vertex rnd (D ! i0, D ! i1, D ! i2))"
  have valid: "\<forall>k\<in>set idBuffer. k < length D"
    using assms by (simp add: idBuffer_def D_def)
  have "\<forall>i\<in>set [0..<length idBuffer div 3].
          enumerateVs_facet rnd D idBuffer i = Inr (g (facets idBuffer ! i))"
    using enumerateVs_facet_primal[OF _ valid] by (simp add: g_def)
  then have "enumerateVs_loop rnd D idBuffer [0..<length idBuffer div 3] [] =
      Inr ([] @ map (\<lambda>i. g (facets idBuffer ! i)) [0..<length idBuffer div 3])"
    by (rule enumerateVs_loop_map)
  also have "map (\<lambda>i. g (facets idBuffer ! i)) [0..<length idBuffer div 3] =
      map g (facets idBuffer)"
    using map_nth[of "facets idBuffer"] by (simp add: length_facets flip: map_map [unfolded comp_def])
  finally have loop: "enumerateVs_loop rnd D idBuffer [0..<length idBuffer div 3] [] =
      Inr (map g (facets idBuffer))" by simp
  show ?thesis
    unfolding enumerateVs_def enumerateVs_A_dual Let_def
    unfolding D_def[symmetric] idBuffer_def[symmetric] loop g_def[symmetric]
    by simp
qed

text \<open>C1, at a tetrahedron with the interior point \<open>(1/4, 1/4, 1/4)\<close>: its four
  vertices.\<close>

theorem enumerateVs_dual_facets_witness:
  "enumerateVs Fin tetrahedron_hull tetrahedron (Fin (1 / 4), Fin (1 / 4), Fin (1 / 4)) []
      (Fin (1 / 4)) =
   Inr [(Fin 0, Fin 0, Fin 0), (Fin 0, Fin 0, Fin 1), (Fin 1, Fin 0, Fin 0), (Fin 0, Fin 1, Fin 0)]"
proof -
  let ?inner = "(Fin (1 / 4), Fin (1 / 4), Fin (1 / 4))"
  have D: "map (dual_point Fin ?inner) tetrahedron =
      [(Fin (- 4), Fin 0, Fin 0), (Fin 0, Fin (- 4), Fin 0), (Fin 0, Fin 0, Fin (- 4)),
       (Fin 4, Fin 4, Fin 4)]"
    by (simp add: tetrahedron_def dual_point_def arith_simps)
  have ids: "getConvexHull tetrahedron_hull D CCW orig e = [0, 1, 2, 0, 3, 1, 1, 3, 2, 0, 2, 3]"
    for D CCW orig e
    by (simp add: tetrahedron_hull_def)
  have valid: "\<forall>k\<in>set (getConvexHull tetrahedron_hull (map (dual_point Fin ?inner) tetrahedron)
        False True (std_min (Fin (1 / 4)) (defaultEps tetrahedron_hull))). k < length tetrahedron"
    unfolding ids by (simp add: tetrahedron_def)
  have rV: "map (\<lambda>(i0, i1, i2). primal_vertex Fin
         ([(Fin (- 4), Fin 0, Fin 0), (Fin 0, Fin (- 4), Fin 0), (Fin 0, Fin 0, Fin (- 4)),
           (Fin 4, Fin 4, Fin 4)] ! i0,
          [(Fin (- 4), Fin 0, Fin 0), (Fin 0, Fin (- 4), Fin 0), (Fin 0, Fin 0, Fin (- 4)),
           (Fin 4, Fin 4, Fin 4)] ! i1,
          [(Fin (- 4), Fin 0, Fin 0), (Fin 0, Fin (- 4), Fin 0), (Fin 0, Fin 0, Fin (- 4)),
           (Fin 4, Fin 4, Fin 4)] ! i2)) (facets [0, 1, 2, 0, 3, 1, 1, 3, 2, 0, 2, 3]) =
      [(Fin (- (1 / 4)), Fin (- (1 / 4)), Fin (- (1 / 4))),
       (Fin (- (1 / 4)), Fin (- (1 / 4)), Fin (3 / 4)),
       (Fin (3 / 4), Fin (- (1 / 4)), Fin (- (1 / 4))),
       (Fin (- (1 / 4)), Fin (3 / 4), Fin (- (1 / 4)))]"
    by (simp add: arith_simps)
  have f: "filterVs Fin [(Fin (- (1 / 4)), Fin (- (1 / 4)), Fin (- (1 / 4))),
       (Fin (- (1 / 4)), Fin (- (1 / 4)), Fin (3 / 4)),
       (Fin (3 / 4), Fin (- (1 / 4)), Fin (- (1 / 4))),
       (Fin (- (1 / 4)), Fin (3 / 4), Fin (- (1 / 4)))] (Fin (1 / 4)) [] =
     Inr [(Fin (- (1 / 4)), Fin (- (1 / 4)), Fin (- (1 / 4))),
       (Fin (- (1 / 4)), Fin (- (1 / 4)), Fin (3 / 4)),
       (Fin (3 / 4), Fin (- (1 / 4)), Fin (- (1 / 4))),
       (Fin (- (1 / 4)), Fin (3 / 4), Fin (- (1 / 4)))]"
    by (simp add: filterVs_simps arith_simps upt_4)
  show ?thesis
    unfolding enumerateVs_dual_facets[OF valid] Let_def D ids rV f
    by (simp add: arith_simps)
qed

text \<open>
  C5. Let \<open>(inner, found)\<close> be what \<open>findInterior\<close> returns on \<open>hPoly\<close>. When \<open>found\<close> is
  false, the overload without an interior point returns false and leaves \<open>vPoly\<close> as it
  was. When \<open>found\<close> is true, it does what \<open>enumerateVs\<close> does with \<open>inner\<close>: it returns
  true with the same contents of \<open>vPoly\<close>, or fails with the same assertion. It returns
  false only in the first case.
\<close>

theorem enumerateVs_auto_cases:
  "case findInterior rnd linprog hPoly inner0 of (inner, found) \<Rightarrow>
     (\<not> found \<longrightarrow> enumerateVs_auto rnd linprog qh inner0 hPoly vPoly epsilon = Inr (vPoly, False)) \<and>
     (found \<longrightarrow>
        (case enumerateVs rnd qh hPoly inner vPoly epsilon of
           Inl e \<Rightarrow> enumerateVs_auto rnd linprog qh inner0 hPoly vPoly epsilon = Inl e
         | Inr out \<Rightarrow> enumerateVs_auto rnd linprog qh inner0 hPoly vPoly epsilon = Inr (out, True))) \<and>
     (\<forall>out. enumerateVs_auto rnd linprog qh inner0 hPoly vPoly epsilon = Inr (out, False) \<longrightarrow>
        \<not> found \<and> out = vPoly)"
  by (auto simp: enumerateVs_auto_def split: prod.splits sum.splits)

section \<open>The examples, computed\<close>

lemma findInterior_lp_cube:
  "findInterior_lp Fin unit_cube =
     ((Fin 0, Fin 0, Fin 0, Fin (- 1)),
      [(Fin 1, Fin 0, Fin 0, Fin 1), (Fin (- 1), Fin 0, Fin 0, Fin 1),
       (Fin 0, Fin 1, Fin 0, Fin 1), (Fin 0, Fin (- 1), Fin 0, Fin 1),
       (Fin 0, Fin 0, Fin 1, Fin 1), (Fin 0, Fin 0, Fin (- 1), Fin 1)],
      [Fin 1, NegZero, Fin 1, NegZero, Fin 1, NegZero])"
  by (simp add: findInterior_lp_rows unit_cube_def fdiv_def fmul_def fadd_def fsqrt_def
      zero_of_def inf_of_def)

lemma lp_minimum_cube:
  "lp_minimum (Fin 0, Fin 0, Fin 0, Fin (- 1))
      [(Fin 1, Fin 0, Fin 0, Fin 1), (Fin (- 1), Fin 0, Fin 0, Fin 1),
       (Fin 0, Fin 1, Fin 0, Fin 1), (Fin 0, Fin (- 1), Fin 0, Fin 1),
       (Fin 0, Fin 0, Fin 1, Fin 1), (Fin 0, Fin 0, Fin (- 1), Fin 1)]
      [Fin 1, NegZero, Fin 1, NegZero, Fin 1, NegZero] = Fin (- (1 / 2))"
proof -
  let ?c = "(Fin 0, Fin 0, Fin 0, Fin (- 1))"
  let ?A = "[(Fin 1, Fin 0, Fin 0, Fin 1), (Fin (- 1), Fin 0, Fin 0, Fin 1),
       (Fin 0, Fin 1, Fin 0, Fin 1), (Fin 0, Fin (- 1), Fin 0, Fin 1),
       (Fin 0, Fin 0, Fin 1, Fin 1), (Fin 0, Fin 0, Fin (- 1), Fin 1)]"
  let ?b = "[Fin 1, NegZero, Fin 1, NegZero, Fin 1, NegZero]"
  let ?x = "(1 / 2, 1 / 2, 1 / 2, 1 / 2) :: real \<times> real \<times> real \<times> real"
  have 1: "lp_finite_objective ?c" by (simp add: isfinite_def)
  have 2: "?x \<in> lp_feasible ?A ?b" by (simp add: lp_feasible_def isfinite_def)
  have 3: "\<forall>y\<in>lp_feasible ?A ?b. lp_objective ?c ?x \<le> lp_objective ?c y"
    by (auto simp: lp_feasible_def isfinite_def)
  show ?thesis using lp_minimum_eqI[OF 1 2 3] by simp
qed

lemma findInterior_cube:
  "findInterior Fin (linprog_spec centre) unit_cube interior =
     ((Fin (1 / 2), Fin (1 / 2), Fin (1 / 2)), True)"
  by (simp add: findInterior_def findInterior_lp_cube linprog_spec_def lp_minimum_cube
      centre_def fless_def)

lemma overlap_lp_boxes:
  "overlap_lp (box l0 h0) (box l1 h1) =
     ((Fin 0, Fin 0, Fin 0, Fin (- 1)),
      [(Fin 1, Fin 0, Fin 0, Fin 1), (Fin (- 1), Fin 0, Fin 0, Fin 1),
       (Fin 0, Fin 1, Fin 0, Fin 1), (Fin 0, Fin (- 1), Fin 0, Fin 1),
       (Fin 0, Fin 0, Fin 1, Fin 1), (Fin 0, Fin 0, Fin (- 1), Fin 1),
       (Fin 1, Fin 0, Fin 0, Fin 1), (Fin (- 1), Fin 0, Fin 0, Fin 1),
       (Fin 0, Fin 1, Fin 0, Fin 1), (Fin 0, Fin (- 1), Fin 0, Fin 1),
       (Fin 0, Fin 0, Fin 1, Fin 1), (Fin 0, Fin 0, Fin (- 1), Fin 1)],
      [fneg (Fin (- h0)), fneg (Fin l0), fneg (Fin (- h0)), fneg (Fin l0),
       fneg (Fin (- h0)), fneg (Fin l0), fneg (Fin (- h1)), fneg (Fin l1),
       fneg (Fin (- h1)), fneg (Fin l1), fneg (Fin (- h1)), fneg (Fin l1)])"
  by (simp add: overlap_lp_rows box_def)

text \<open>The optimal value for two boxes, the second not below the first: minus half of
  the width of the intersection along an axis.\<close>

lemma lp_minimum_boxes:
  assumes "l0 \<le> l1" "h0 \<le> h1"
  shows "fst (linprog_spec pick (fst (overlap_lp (box l0 h0) (box l1 h1)))
            (fst (snd (overlap_lp (box l0 h0) (box l1 h1))))
            (snd (snd (overlap_lp (box l0 h0) (box l1 h1))))) = Fin ((l1 - h0) / 2)"
proof -
  let ?c = "(Fin 0, Fin 0, Fin 0, Fin (- 1))"
  let ?A = "fst (snd (overlap_lp (box l0 h0) (box l1 h1)))"
  let ?b = "snd (snd (overlap_lp (box l0 h0) (box l1 h1)))"
  let ?m = "(h0 + l1) / 2"
  let ?x = "(?m, ?m, ?m, (h0 - l1) / 2)"
  have c: "fst (overlap_lp (box l0 h0) (box l1 h1)) = ?c"
    by (simp add: overlap_lp_rows)
  have 1: "lp_finite_objective ?c" by (simp add: isfinite_def)
  have 2: "?x \<in> lp_feasible ?A ?b"
    using assms
    by (simp add: overlap_lp_boxes lp_feasible_def isfinite_def fneg_Fin_ok valof_fneg_Fin
        field_simps del: fneg.simps)
  have 3: "\<forall>y\<in>lp_feasible ?A ?b. lp_objective ?c ?x \<le> lp_objective ?c y"
    by (auto simp: overlap_lp_boxes lp_feasible_def isfinite_def fneg_Fin_ok valof_fneg_Fin
        simp del: fneg.simps)
  have obj: "lp_objective ?c ?x = (l1 - h0) / 2"
    by (simp add: field_simps)
  have "lp_minimum ?c ?A ?b = Fin ((l1 - h0) / 2)"
    using lp_minimum_eqI[OF 1 2 3] unfolding obj .
  then show ?thesis
    unfolding linprog_spec_def fst_conv c .
qed

lemma overlap_boxes:
  assumes "l0 \<le> l1" "h0 \<le> h1"
  shows "overlap (linprog_spec pick) (box l0 h0) (box l1 h1) (Fin e) = ((l1 - h0) / 2 < - e)"
proof -
  obtain c A b where lp: "overlap_lp (box l0 h0) (box l1 h1) = (c, A, b)"
    by (cases "overlap_lp (box l0 h0) (box l1 h1)") auto
  have "fst (linprog_spec pick c A b) = Fin ((l1 - h0) / 2)"
    using lp_minimum_boxes[OF assms, of pick] by (simp add: lp)
  then show ?thesis
    by (cases "e = 0") (auto simp: overlap_def lp fless_def split: prod.splits)
qed

lemma enumerateVs_cube:
  "enumerateVs Fin octahedron unit_cube (Fin (1 / 2), Fin (1 / 2), Fin (1 / 2)) vPoly
      (Fin (1 / 1000000)) =
   Inr [(Fin 1, Fin 1, Fin 1), (Fin 1, Fin 0, Fin 1), (Fin 1, Fin 0, Fin 0),
        (Fin 1, Fin 1, Fin 0), (Fin 0, Fin 1, Fin 1), (Fin 0, Fin 0, Fin 1),
        (Fin 0, Fin 0, Fin 0), (Fin 0, Fin 1, Fin 0)]"
proof -
  have A: "enumerateVs_A Fin unit_cube (Fin (1 / 2), Fin (1 / 2), Fin (1 / 2)) =
      [(Fin 2, Fin 0, Fin 0), (Fin (- 2), Fin 0, Fin 0), (Fin 0, Fin 2, Fin 0),
       (Fin 0, Fin (- 2), Fin 0), (Fin 0, Fin 0, Fin 2), (Fin 0, Fin 0, Fin (- 2))]"
    by (simp add: enumerateVs_A_def unit_cube_def arith_simps)
  have ids: "getConvexHull octahedron D CCW orig e =
      [0, 2, 4, 0, 4, 3, 0, 3, 5, 0, 5, 2, 1, 4, 2, 1, 3, 4, 1, 5, 3, 1, 2, 5]"
    for D CCW orig e
    by (simp add: octahedron_def)
  have loop: "enumerateVs_loop Fin
       [(Fin 2, Fin 0, Fin 0), (Fin (- 2), Fin 0, Fin 0), (Fin 0, Fin 2, Fin 0),
        (Fin 0, Fin (- 2), Fin 0), (Fin 0, Fin 0, Fin 2), (Fin 0, Fin 0, Fin (- 2))]
       [0, 2, 4, 0, 4, 3, 0, 3, 5, 0, 5, 2, 1, 4, 2, 1, 3, 4, 1, 5, 3, 1, 2, 5]
       [0, 1, 2, 3, 4, 5, 6, 7] [] =
     Inr [(Fin (1 / 2), Fin (1 / 2), Fin (1 / 2)), (Fin (1 / 2), Fin (- (1 / 2)), Fin (1 / 2)),
          (Fin (1 / 2), Fin (- (1 / 2)), Fin (- (1 / 2))), (Fin (1 / 2), Fin (1 / 2), Fin (- (1 / 2))),
          (Fin (- (1 / 2)), Fin (1 / 2), Fin (1 / 2)), (Fin (- (1 / 2)), Fin (- (1 / 2)), Fin (1 / 2)),
          (Fin (- (1 / 2)), Fin (- (1 / 2)), Fin (- (1 / 2))), (Fin (- (1 / 2)), Fin (1 / 2), Fin (- (1 / 2)))]"
    by (simp add: enumerateVs_facet_def col_def arith_simps)
  have f: "filterVs Fin
         [(Fin (1 / 2), Fin (1 / 2), Fin (1 / 2)), (Fin (1 / 2), Fin (- (1 / 2)), Fin (1 / 2)),
          (Fin (1 / 2), Fin (- (1 / 2)), Fin (- (1 / 2))), (Fin (1 / 2), Fin (1 / 2), Fin (- (1 / 2))),
          (Fin (- (1 / 2)), Fin (1 / 2), Fin (1 / 2)), (Fin (- (1 / 2)), Fin (- (1 / 2)), Fin (1 / 2)),
          (Fin (- (1 / 2)), Fin (- (1 / 2)), Fin (- (1 / 2))), (Fin (- (1 / 2)), Fin (1 / 2), Fin (- (1 / 2)))]
         (Fin (1 / 1000000)) vPoly =
     Inr [(Fin (1 / 2), Fin (1 / 2), Fin (1 / 2)), (Fin (1 / 2), Fin (- (1 / 2)), Fin (1 / 2)),
          (Fin (1 / 2), Fin (- (1 / 2)), Fin (- (1 / 2))), (Fin (1 / 2), Fin (1 / 2), Fin (- (1 / 2))),
          (Fin (- (1 / 2)), Fin (1 / 2), Fin (1 / 2)), (Fin (- (1 / 2)), Fin (- (1 / 2)), Fin (1 / 2)),
          (Fin (- (1 / 2)), Fin (- (1 / 2)), Fin (- (1 / 2))), (Fin (- (1 / 2)), Fin (1 / 2), Fin (- (1 / 2)))]"
    by (simp add: filterVs_simps arith_simps upt_8)
  have hNum: "length [0, 2, 4, 0, 4, 3, 0, 3, 5, 0, 5, 2, 1, 4, 2, 1, 3, 4, 1, 5, 3, 1, 2, 5 :: nat]
      div 3 = 8"
    by simp
  show ?thesis
    unfolding enumerateVs_def Let_def A ids hNum upt_8 loop sum.case f
    by (simp add: arith_simps)
qed

text \<open>C2, at the unit cube with the oracle of the specification: the optimal value is
  \<open>-1/2\<close> and the result is true.\<close>

theorem findInterior_true_iff_witness:
  "snd (findInterior Fin (linprog_spec centre) unit_cube (NaN, NaN, NaN)) \<and>
   fst (linprog_spec centre (Fin 0, Fin 0, Fin 0, Fin (- 1))
      [(Fin 1, Fin 0, Fin 0, Fin 1), (Fin (- 1), Fin 0, Fin 0, Fin 1),
       (Fin 0, Fin 1, Fin 0, Fin 1), (Fin 0, Fin (- 1), Fin 0, Fin 1),
       (Fin 0, Fin 0, Fin 1, Fin 1), (Fin 0, Fin 0, Fin (- 1), Fin 1)]
      [Fin 1, NegZero, Fin 1, NegZero, Fin 1, NegZero]) = Fin (- (1 / 2))"
  using findInterior_true_iff[where rnd = Fin and hPoly = unit_cube
      and linprog = "linprog_spec centre" and interior = "(NaN, NaN, NaN)"]
  unfolding findInterior_lp_cube
  by (simp add: linprog_spec_def lp_minimum_cube isfinite_def fless_def Let_def)

text \<open>C10, with an oracle that reports an infeasible program (\<open>+\<infinity>\<close>) and leaves
  \<open>(1, 2, 3, 4)\<close> in \<open>x\<close>: the result is false and \<open>interior\<close>, which held \<open>(7, 7, 7)\<close>, holds
  \<open>(1, 2, 3)\<close>.\<close>

theorem findInterior_overwrites_witness:
  "findInterior Fin (\<lambda>c A b. (PInf, (Fin 1, Fin 2, Fin 3, Fin 4))) unit_cube (Fin 7, Fin 7, Fin 7) =
     ((Fin 1, Fin 2, Fin 3), False)"
  using findInterior_overwrites[where rnd = Fin and hPoly = unit_cube
      and linprog = "\<lambda>c A b. (PInf, (Fin 1, Fin 2, Fin 3, Fin 4))"
      and interior = "(Fin 7, Fin 7, Fin 7)"]
  by (simp add: findInterior_def findInterior_lp_cube fless_def)

lemma boxes_no_interior:
  assumes "h0 \<le> l1"
  shows "\<not> (\<exists>p. \<forall>h\<in>set (box l0 h0 @ box l1 h1). strictly_inside h p)"
proof
  assume "\<exists>p. \<forall>h\<in>set (box l0 h0 @ box l1 h1). strictly_inside h p"
  then obtain x y z where "\<forall>h\<in>set (box l0 h0 @ box l1 h1). strictly_inside h (x, y, z)"
    by auto
  then have "strictly_inside (Fin 1, Fin 0, Fin 0, Fin (- h0)) (x, y, z)"
    "strictly_inside (Fin (- 1), Fin 0, Fin 0, Fin l1) (x, y, z)"
    by (simp_all add: box_def)
  then show False using assms by simp
qed

text \<open>C3, at the unit cube against \<open>[1/2, 3/2]\<^sup>3\<close> (true), against \<open>[2, 3]\<^sup>3\<close>, which is
  disjoint from it (false), and against \<open>[1, 2]\<^sup>3\<close>, which it touches (false).\<close>

theorem overlap_true_iff_witness:
  "overlap (linprog_spec centre) (box 0 1) (box (1 / 2) (3 / 2)) (Fin (1 / 1000000)) \<and>
   \<not> overlap (linprog_spec centre) (box 0 1) (box 2 3) (Fin (1 / 1000000)) \<and>
   \<not> overlap (linprog_spec centre) (box 0 1) (box 1 2) (Fin (1 / 1000000))"
proof -
  have v: "fst (linprog_spec centre (fst (overlap_lp (box 0 1) (box l h)))
            (fst (snd (overlap_lp (box 0 1) (box l h))))
            (snd (snd (overlap_lp (box 0 1) (box l h))))) = Fin (- ((1 - l) / 2))"
    if "0 \<le> l" "1 \<le> h" for l h
    using lp_minimum_boxes[OF that, of centre] by (simp add: field_simps)
  have e: "fle (Fin 0) (Fin (1 / 1000000))"
    by (simp add: fle_def fless_def)
  have n2: "\<not> (\<exists>p. \<forall>h\<in>set (box 0 1 @ box 2 3). strictly_inside h p)"
    by (rule boxes_no_interior) simp
  have n1: "\<not> (\<exists>p. \<forall>h\<in>set (box 0 1 @ box 1 2). strictly_inside h p)"
    by (rule boxes_no_interior) simp
  have a: "overlap (linprog_spec centre) (box 0 1) (box (1 / 2) (3 / 2)) (Fin (1 / 1000000))"
    using conjunct1[OF overlap_true_iff[where ?hPoly0.0 = "box 0 1"
          and ?hPoly1.0 = "box (1 / 2) (3 / 2)" and linprog = "linprog_spec centre"
          and eps = "Fin (1 / 1000000)"]] v[of "1 / 2" "3 / 2"]
    by (simp add: isfinite_def fless_def Let_def split: prod.splits)
  have b: "\<not> overlap (linprog_spec centre) (box 0 1) (box 2 3) (Fin (1 / 1000000))"
    using conjunct2[OF overlap_true_iff[where ?hPoly0.0 = "box 0 1" and ?hPoly1.0 = "box 2 3"
          and pick = centre and eps = "Fin (1 / 1000000)"]]
      e n2
    by blast
  have c: "\<not> overlap (linprog_spec centre) (box 0 1) (box 1 2) (Fin (1 / 1000000))"
    using conjunct2[OF overlap_true_iff[where ?hPoly0.0 = "box 0 1" and ?hPoly1.0 = "box 1 2"
          and pick = centre and eps = "Fin (1 / 1000000)"]]
      e n1
    by blast
  from a b c show ?thesis by simp
qed

text \<open>
  C3 as stated fails for a negative \<open>eps\<close>: the test is \<open>v < - eps\<close>, and nothing takes
  the absolute value of \<open>eps\<close>. With the oracle of the specification, \<open>overlap\<close> returns
  true at \<open>eps = -1\<close> for the unit cube and \<open>[2, 3]\<^sup>3\<close>, which are disjoint (the optimal
  value is \<open>1/2\<close>), and at \<open>eps = -10\<^sup>-\<^sup>6\<close> for the unit cube and \<open>[1, 2]\<^sup>3\<close>, which share a
  face only (the optimal value is \<open>0\<close>).
\<close>

theorem overlap_negative_eps:
  "overlap (linprog_spec centre) (box 0 1) (box 2 3) (Fin (- 1)) \<and>
   overlap (linprog_spec centre) (box 0 1) (box 1 2) (Fin (- (1 / 1000000)))"
  by (simp add: overlap_boxes)

text \<open>C6, at the same boxes, in the other order.\<close>

theorem overlap_symmetric_witness:
  "overlap (linprog_spec centre) (box (1 / 2) (3 / 2)) (box 0 1) (Fin (1 / 1000000)) \<and>
   \<not> overlap (linprog_spec centre) (box 2 3) (box 0 1) (Fin (1 / 1000000))"
  unfolding overlap_symmetric[THEN conjunct1, of centre "box (1 / 2) (3 / 2)" "box 0 1"]
    overlap_symmetric[THEN conjunct1, of centre "box 2 3" "box 0 1"]
  by (simp add: overlap_boxes)

text \<open>C5, at the unit cube: with the oracle of the specification the eight corners
  and true; with an oracle that reports an infeasible program, false and \<open>vPoly\<close>
  unchanged.\<close>

theorem enumerateVs_auto_cases_witness:
  "enumerateVs_auto Fin (linprog_spec centre) octahedron (NaN, NaN, NaN) unit_cube []
      (Fin (1 / 1000000)) =
   Inr ([(Fin 1, Fin 1, Fin 1), (Fin 1, Fin 0, Fin 1), (Fin 1, Fin 0, Fin 0),
         (Fin 1, Fin 1, Fin 0), (Fin 0, Fin 1, Fin 1), (Fin 0, Fin 0, Fin 1),
         (Fin 0, Fin 0, Fin 0), (Fin 0, Fin 1, Fin 0)], True) \<and>
   enumerateVs_auto Fin (\<lambda>c A b. (PInf, c)) octahedron (NaN, NaN, NaN) unit_cube
      [(Fin 9, Fin 9, Fin 9)] (Fin (1 / 1000000)) = Inr ([(Fin 9, Fin 9, Fin 9)], False)"
proof -
  have a: "enumerateVs_auto Fin (linprog_spec centre) octahedron (NaN, NaN, NaN) unit_cube []
      (Fin (1 / 1000000)) =
   Inr ([(Fin 1, Fin 1, Fin 1), (Fin 1, Fin 0, Fin 1), (Fin 1, Fin 0, Fin 0),
         (Fin 1, Fin 1, Fin 0), (Fin 0, Fin 1, Fin 1), (Fin 0, Fin 0, Fin 1),
         (Fin 0, Fin 0, Fin 0), (Fin 0, Fin 1, Fin 0)], True)"
    using enumerateVs_auto_cases[where rnd = Fin and linprog = "linprog_spec centre"
        and hPoly = unit_cube and ?inner0.0 = "(NaN, NaN, NaN)" and qh = octahedron
        and vPoly = "[]" and epsilon = "Fin (1 / 1000000)"]
    by (simp add: findInterior_cube enumerateVs_cube)
  have f: "findInterior Fin (\<lambda>c A b. (PInf, c)) unit_cube (NaN, NaN, NaN) =
      ((Fin 0, Fin 0, Fin 0), False)"
    by (simp add: findInterior_def findInterior_lp_cube fless_def)
  have b: "enumerateVs_auto Fin (\<lambda>c A b. (PInf, c)) octahedron (NaN, NaN, NaN) unit_cube
      [(Fin 9, Fin 9, Fin 9)] (Fin (1 / 1000000)) = Inr ([(Fin 9, Fin 9, Fin 9)], False)"
    using enumerateVs_auto_cases[where rnd = Fin and linprog = "\<lambda>c A b. (PInf, c)"
        and hPoly = unit_cube and ?inner0.0 = "(NaN, NaN, NaN)" and qh = octahedron
        and vPoly = "[(Fin 9, Fin 9, Fin 9)]" and epsilon = "Fin (1 / 1000000)"]
    by (simp add: f)
  from a b show ?thesis by simp
qed

end
